theory Spec2Isabelle
  imports Complex_Main "HOL-Library.Multiset"
begin

section \<open>Data model\<close>

text \<open>
  The exceptions the engine raises. The source raises Python's built-in exceptions:
  \<open>ValueError\<close> for a malformed record, a duplicate id, an arity mismatch, a ratio
  out of range and the maximum of an empty sequence; \<open>TypeError\<close> for a query input
  of unexpected type; \<open>StopIteration\<close> escapes from \<open>next\<close> over an exhausted
  generator; \<open>AttributeError\<close> from reading an attribute that a value does not have;
  \<open>KeyError\<close> from reading a key that a mapping does not have.
\<close>

datatype error =
  ValueError | TypeError | StopIteration | AttributeError | KeyError | NotImplementedError

text \<open>
  Loosely typed values, as decoded from the interchange format, and the payloads the
  engine never interprets. \<open>PObj c fs\<close> is an instance of the dataclass \<open>c\<close> with the
  attributes \<open>fs\<close>. Numbers of a payload are kept as integers: the engine never
  computes with them.
\<close>

datatype pyval =
    PNone
  | PInt int
  | PStr string
  | PList "pyval list"
  | PDict "(string \<times> pyval) list"
  | PObj string "(string \<times> pyval) list"

record info =
  year :: int
  version :: string
  description :: string
  contributor :: string
  info_url :: string
  date_created :: string

record license =
  l_id :: int
  l_name :: string
  l_url :: string

record image =
  i_id :: int
  width :: int
  height :: int
  file_name :: string
  i_license :: int
  flickr_url :: string
  coco_url :: string
  date_captured :: string

datatype category =
    ObjectDetectionCategory int string string
  | KeypointDetectionCategory int string string pyval pyval
  | PanopticSegmentationCategory int string string pyval pyval

fun c_id :: "category \<Rightarrow> int" where
  "c_id (ObjectDetectionCategory i n s) = i"
| "c_id (KeypointDetectionCategory i n s k sk) = i"
| "c_id (PanopticSegmentationCategory i n s t c) = i"

fun c_name :: "category \<Rightarrow> string" where
  "c_name (ObjectDetectionCategory i n s) = n"
| "c_name (KeypointDetectionCategory i n s k sk) = n"
| "c_name (PanopticSegmentationCategory i n s t c) = n"

fun supercategory :: "category \<Rightarrow> string" where
  "supercategory (ObjectDetectionCategory i n s) = s"
| "supercategory (KeypointDetectionCategory i n s k sk) = s"
| "supercategory (PanopticSegmentationCategory i n s t c) = s"

fun set_c_id :: "int \<Rightarrow> category \<Rightarrow> category" where
  "set_c_id j (ObjectDetectionCategory i n s) = ObjectDetectionCategory j n s"
| "set_c_id j (KeypointDetectionCategory i n s k sk) = KeypointDetectionCategory j n s k sk"
| "set_c_id j (PanopticSegmentationCategory i n s t c) = PanopticSegmentationCategory j n s t c"

record segment_info =
  si_id :: int
  si_category_id :: int
  si_area :: pyval
  si_bbox :: pyval
  si_iscrowd :: pyval

record detection_payload =
  segmentation :: pyval
  area :: pyval
  bbox :: pyval
  iscrowd :: pyval

record dense_pose_payload =
  dp_is_crowd :: pyval
  dp_area :: pyval
  dp_bbox :: pyval
  dp_I :: pyval
  dp_U :: pyval
  dp_V :: pyval
  dp_x :: pyval
  dp_y :: pyval
  dp_masks :: pyval

text \<open>
  The annotation family. The arguments of the identified, category-linked variants are
  \<open>id\<close>, \<open>image_id\<close>, \<open>category_id\<close> and the payload; the panoptic variant has
  \<open>image_id\<close>, \<open>file_name\<close> and \<open>segments_info\<close>; the captioning variant has
  \<open>id\<close>, \<open>image_id\<close> and \<open>caption\<close>.
\<close>

datatype annotation =
    ObjectDetectionAnnotation int int int detection_payload
  | KeypointDetectionAnnotation int int int detection_payload pyval pyval
  | StuffSegmentationAnnotation int int int detection_payload
  | PanopticSegmentationAnnotation int string "segment_info list"
  | ImageCaptioningAnnotation int int string
  | DensePoseAnnotation int int int dense_pose_payload

text \<open>The protocols \<open>Indexed\<close> (has \<open>id\<close>) and \<open>Categorized\<close> (has \<open>category_id\<close>);
  every variant has \<open>image_id\<close>, which is the protocol \<open>Annotation\<close>.\<close>

fun a_id :: "annotation \<Rightarrow> int option" where
  "a_id (ObjectDetectionAnnotation i im c p) = Some i"
| "a_id (KeypointDetectionAnnotation i im c p k n) = Some i"
| "a_id (StuffSegmentationAnnotation i im c p) = Some i"
| "a_id (PanopticSegmentationAnnotation im f ss) = None"
| "a_id (ImageCaptioningAnnotation i im t) = Some i"
| "a_id (DensePoseAnnotation i im c p) = Some i"

fun image_id :: "annotation \<Rightarrow> int" where
  "image_id (ObjectDetectionAnnotation i im c p) = im"
| "image_id (KeypointDetectionAnnotation i im c p k n) = im"
| "image_id (StuffSegmentationAnnotation i im c p) = im"
| "image_id (PanopticSegmentationAnnotation im f ss) = im"
| "image_id (ImageCaptioningAnnotation i im t) = im"
| "image_id (DensePoseAnnotation i im c p) = im"

fun category_id :: "annotation \<Rightarrow> int option" where
  "category_id (ObjectDetectionAnnotation i im c p) = Some c"
| "category_id (KeypointDetectionAnnotation i im c p k n) = Some c"
| "category_id (StuffSegmentationAnnotation i im c p) = Some c"
| "category_id (PanopticSegmentationAnnotation im f ss) = None"
| "category_id (ImageCaptioningAnnotation i im t) = None"
| "category_id (DensePoseAnnotation i im c p) = Some c"

definition is_Indexed :: "annotation \<Rightarrow> bool" where
  "is_Indexed a = (a_id a \<noteq> None)"

definition is_Categorized :: "annotation \<Rightarrow> bool" where
  "is_Categorized a = (category_id a \<noteq> None)"

fun is_Panoptic :: "annotation \<Rightarrow> bool" where
  "is_Panoptic (PanopticSegmentationAnnotation im f ss) = True"
| "is_Panoptic _ = False"

fun set_a_id :: "int \<Rightarrow> annotation \<Rightarrow> annotation" where
  "set_a_id j (ObjectDetectionAnnotation i im c p) = ObjectDetectionAnnotation j im c p"
| "set_a_id j (KeypointDetectionAnnotation i im c p k n) = KeypointDetectionAnnotation j im c p k n"
| "set_a_id j (StuffSegmentationAnnotation i im c p) = StuffSegmentationAnnotation j im c p"
| "set_a_id j (PanopticSegmentationAnnotation im f ss) = PanopticSegmentationAnnotation im f ss"
| "set_a_id j (ImageCaptioningAnnotation i im t) = ImageCaptioningAnnotation j im t"
| "set_a_id j (DensePoseAnnotation i im c p) = DensePoseAnnotation j im c p"

fun set_image_id :: "int \<Rightarrow> annotation \<Rightarrow> annotation" where
  "set_image_id j (ObjectDetectionAnnotation i im c p) = ObjectDetectionAnnotation i j c p"
| "set_image_id j (KeypointDetectionAnnotation i im c p k n) = KeypointDetectionAnnotation i j c p k n"
| "set_image_id j (StuffSegmentationAnnotation i im c p) = StuffSegmentationAnnotation i j c p"
| "set_image_id j (PanopticSegmentationAnnotation im f ss) = PanopticSegmentationAnnotation j f ss"
| "set_image_id j (ImageCaptioningAnnotation i im t) = ImageCaptioningAnnotation i j t"
| "set_image_id j (DensePoseAnnotation i im c p) = DensePoseAnnotation i j c p"

text \<open>
  The dataset. The four \<open>cached\<close> lists are the reservation buffers that
  \<open>__post_init__\<close> creates; they are attributes, not dataclass fields.
\<close>

record coco =
  info :: info
  licenses :: "license list"
  categories :: "category list option"
  images :: "image list"
  annotations :: "annotation list"
  cached_license_ids :: "int list"
  cached_image_ids :: "int list"
  cached_category_ids :: "int list"
  cached_annotation_ids :: "int list"

text \<open>\<open>if self.categories\<close>: \<open>None\<close> and the empty list are both false.\<close>

definition has_categories :: "coco \<Rightarrow> bool" where
  "has_categories d = (case categories d of None \<Rightarrow> False | Some cs \<Rightarrow> cs \<noteq> [])"

definition the_categories :: "coco \<Rightarrow> category list" where
  "the_categories d = (case categories d of None \<Rightarrow> [] | Some cs \<Rightarrow> cs)"

subsection \<open>Properties of the dataset\<close>

definition license_ids :: "coco \<Rightarrow> int list" where
  "license_ids d = map l_id (licenses d)"

definition license_names :: "coco \<Rightarrow> string list" where
  "license_names d = map l_name (licenses d)"

definition image_ids :: "coco \<Rightarrow> int list" where
  "image_ids d = map i_id (images d)"

definition image_file_names :: "coco \<Rightarrow> string list" where
  "image_file_names d = map file_name (images d)"

definition category_ids :: "coco \<Rightarrow> int list" where
  "category_ids d = (if has_categories d then map c_id (the_categories d) else [])"

definition category_names :: "coco \<Rightarrow> string list" where
  "category_names d = (if has_categories d then map c_name (the_categories d) else [])"

definition annotation_ids :: "coco \<Rightarrow> int list" where
  "annotation_ids d = map (\<lambda>a. the (a_id a)) (filter is_Indexed (annotations d))"

section \<open>Identifier allocator\<close>

text \<open>Python's \<open>max\<close> of a list raises \<open>ValueError\<close> on the empty list.\<close>

fun py_max :: "int list \<Rightarrow> error + int" where
  "py_max [] = Inl ValueError"
| "py_max (x # xs) = Inr (fold max xs x)"

text \<open>
  \<open>__generate_new_id\<close> returns the new id and appends it to the list object it was
  given, which is the reservation buffer of the collection: the second component is the
  buffer after the call.
\<close>

definition generate_new_id :: "int list \<Rightarrow> int list \<Rightarrow> error + (int \<times> int list)" where
  "generate_new_id present_ids cached_ids =
     (case py_max (present_ids @ cached_ids) of
        Inl e \<Rightarrow> Inl e
      | Inr m \<Rightarrow> Inr (m + 1, cached_ids @ [m + 1]))"

definition get_new_license_id :: "coco \<Rightarrow> error + (int \<times> coco)" where
  "get_new_license_id d =
     (case generate_new_id (license_ids d) (cached_license_ids d) of
        Inl e \<Rightarrow> Inl e
      | Inr (k, c) \<Rightarrow> Inr (k, d\<lparr>cached_license_ids := c\<rparr>))"

definition get_new_category_id :: "coco \<Rightarrow> error + (int \<times> coco)" where
  "get_new_category_id d =
     (case generate_new_id (category_ids d) (cached_category_ids d) of
        Inl e \<Rightarrow> Inl e
      | Inr (k, c) \<Rightarrow> Inr (k, d\<lparr>cached_category_ids := c\<rparr>))"

definition get_new_image_id :: "coco \<Rightarrow> error + (int \<times> coco)" where
  "get_new_image_id d =
     (case generate_new_id (image_ids d) (cached_image_ids d) of
        Inl e \<Rightarrow> Inl e
      | Inr (k, c) \<Rightarrow> Inr (k, d\<lparr>cached_image_ids := c\<rparr>))"

definition get_new_annotation_id :: "coco \<Rightarrow> error + (int \<times> coco)" where
  "get_new_annotation_id d =
     (case generate_new_id (annotation_ids d) (cached_annotation_ids d) of
        Inl e \<Rightarrow> Inl e
      | Inr (k, c) \<Rightarrow> Inr (k, d\<lparr>cached_annotation_ids := c\<rparr>))"

definition clear_cached_ids :: "coco \<Rightarrow> coco" where
  "clear_cached_ids d =
     d\<lparr>cached_license_ids := [], cached_image_ids := [],
       cached_category_ids := [], cached_annotation_ids := []\<rparr>"

text \<open>The four collections, to state a property of the allocator once for all of them.\<close>

datatype collection = Licenses | Categories | Images | Annotations

fun present_ids_of :: "collection \<Rightarrow> coco \<Rightarrow> int list" where
  "present_ids_of Licenses d = license_ids d"
| "present_ids_of Categories d = category_ids d"
| "present_ids_of Images d = image_ids d"
| "present_ids_of Annotations d = annotation_ids d"

fun cached_ids_of :: "collection \<Rightarrow> coco \<Rightarrow> int list" where
  "cached_ids_of Licenses d = cached_license_ids d"
| "cached_ids_of Categories d = cached_category_ids d"
| "cached_ids_of Images d = cached_image_ids d"
| "cached_ids_of Annotations d = cached_annotation_ids d"

fun get_new_id :: "collection \<Rightarrow> coco \<Rightarrow> error + (int \<times> coco)" where
  "get_new_id Licenses d = get_new_license_id d"
| "get_new_id Categories d = get_new_category_id d"
| "get_new_id Images d = get_new_image_id d"
| "get_new_id Annotations d = get_new_annotation_id d"

text \<open>\<open>n\<close> consecutive calls of the next-id operation, nothing committed in between:
  the ids returned, in order, and the dataset after the last call.\<close>

fun get_new_ids :: "collection \<Rightarrow> nat \<Rightarrow> coco \<Rightarrow> error + (int list \<times> coco)" where
  "get_new_ids c 0 d = Inr ([], d)"
| "get_new_ids c (Suc n) d =
     (case get_new_id c d of
        Inl e \<Rightarrow> Inl e
      | Inr (k, d') \<Rightarrow>
          (case get_new_ids c n d' of
             Inl e \<Rightarrow> Inl e
           | Inr (ks, d'') \<Rightarrow> Inr (k # ks, d'')))"


text \<open>Appending an id to the reservation buffer of a collection, and the maximum of
  the committed and reserved ids: the two notions the allocator's properties are stated with.\<close>

fun reserve :: "collection \<Rightarrow> int \<Rightarrow> coco \<Rightarrow> coco" where
  "reserve Licenses k d = d\<lparr>cached_license_ids := cached_license_ids d @ [k]\<rparr>"
| "reserve Categories k d = d\<lparr>cached_category_ids := cached_category_ids d @ [k]\<rparr>"
| "reserve Images k d = d\<lparr>cached_image_ids := cached_image_ids d @ [k]\<rparr>"
| "reserve Annotations k d = d\<lparr>cached_annotation_ids := cached_annotation_ids d @ [k]\<rparr>"

definition max_id :: "collection \<Rightarrow> coco \<Rightarrow> int" where
  "max_id c d = Max (set (present_ids_of c d) \<union> set (cached_ids_of c d))"

subsection \<open>Example datasets\<close>

definition empty_coco :: coco where
  "empty_coco = \<lparr>info = \<lparr>year = 0, version = [], description = [], contributor = [],
       info_url = [], date_created = []\<rparr>,
     licenses = [], categories = None, images = [], annotations = [],
     cached_license_ids = [], cached_image_ids = [], cached_category_ids = [],
     cached_annotation_ids = []\<rparr>"

definition mk_image :: "int \<Rightarrow> string \<Rightarrow> int \<Rightarrow> image" where
  "mk_image k f l = \<lparr>i_id = k, width = 640, height = 480, file_name = f, i_license = l,
     flickr_url = [], coco_url = [], date_captured = []\<rparr>"

definition one_image_coco :: coco where
  "one_image_coco = empty_coco\<lparr>images := [mk_image 7 ''a.jpg'' 0]\<rparr>"

section \<open>Query layer\<close>

text \<open>
  The queries dispatch on the runtime type of one argument. The argument is a tagged
  value: an \<open>int\<close>, a \<open>str\<close>, an instance of one of the record types, or a list of
  such values. \<open>isinstances\<close> is the source's helper of that name: every element of the
  list is an instance of the class (true of the empty list).
\<close>

datatype query =
    QInt int
  | QStr string
  | QLicense license
  | QImage image
  | QCategory category
  | QAnnotation annotation
  | QList "query list"

fun is_Image :: "query \<Rightarrow> bool" where
  "is_Image (QImage im) = True"
| "is_Image _ = False"

text \<open>The protocol \<open>Category\<close> asks for \<open>id\<close>, \<open>name\<close> and \<open>supercategory\<close>: of the
  record types only the category variants have all three.\<close>

fun is_Category :: "query \<Rightarrow> bool" where
  "is_Category (QCategory c) = True"
| "is_Category _ = False"

text \<open>The protocol \<open>Annotation\<close> asks for \<open>image_id\<close>: only the annotation variants
  have it.\<close>

fun is_Annotation :: "query \<Rightarrow> bool" where
  "is_Annotation (QAnnotation a) = True"
| "is_Annotation _ = False"

text \<open>\<open>isinstance(x, (Categorized, PanopticSegmentationAnnotation))\<close> on an annotation.\<close>

definition is_Categorized_or_Panoptic :: "annotation \<Rightarrow> bool" where
  "is_Categorized_or_Panoptic a = (is_Categorized a \<or> is_Panoptic a)"

fun is_Categorized_or_Panoptic_query :: "query \<Rightarrow> bool" where
  "is_Categorized_or_Panoptic_query (QAnnotation a) = is_Categorized_or_Panoptic a"
| "is_Categorized_or_Panoptic_query _ = False"

definition isinstances :: "'a list \<Rightarrow> ('a \<Rightarrow> bool) \<Rightarrow> bool" where
  "isinstances xs P = list_all P xs"

fun images_of :: "query list \<Rightarrow> image list" where
  "images_of [] = []"
| "images_of (QImage im # qs) = im # images_of qs"
| "images_of (q # qs) = images_of qs"

fun categories_of :: "query list \<Rightarrow> category list" where
  "categories_of [] = []"
| "categories_of (QCategory c # qs) = c # categories_of qs"
| "categories_of (q # qs) = categories_of qs"

fun annotations_of :: "query list \<Rightarrow> annotation list" where
  "annotations_of [] = []"
| "annotations_of (QAnnotation a # qs) = a # annotations_of qs"
| "annotations_of (q # qs) = annotations_of qs"

subsection \<open>Sequencing of calls that may raise\<close>

definition err_bind :: "error + 'a \<Rightarrow> ('a \<Rightarrow> error + 'b) \<Rightarrow> error + 'b" where
  "err_bind r f = (case r of Inl e \<Rightarrow> Inl e | Inr x \<Rightarrow> f x)"

text \<open>\<open>next(x for x in xs if P(x))\<close>: the first such element, \<open>StopIteration\<close> when
  there is none.\<close>

definition py_next :: "('a \<Rightarrow> bool) \<Rightarrow> 'a list \<Rightarrow> error + 'a" where
  "py_next P xs = (case find P xs of None \<Rightarrow> Inl StopIteration | Some x \<Rightarrow> Inr x)"

text \<open>\<open>[f(x) for x in xs]\<close> where \<open>f\<close> may raise: the first exception ends the
  comprehension.\<close>

fun traverse :: "('a \<Rightarrow> error + 'b) \<Rightarrow> 'a list \<Rightarrow> error + 'b list" where
  "traverse f [] = Inr []"
| "traverse f (x # xs) =
     (case f x of
        Inl e \<Rightarrow> Inl e
      | Inr y \<Rightarrow> (case traverse f xs of Inl e \<Rightarrow> Inl e | Inr ys \<Rightarrow> Inr (y # ys)))"

text \<open>\<open>[x for x in xs if p(x)]\<close> where the test \<open>p\<close> may raise.\<close>

fun filter_err :: "('a \<Rightarrow> error + bool) \<Rightarrow> 'a list \<Rightarrow> error + 'a list" where
  "filter_err p [] = Inr []"
| "filter_err p (x # xs) =
     (case p x of
        Inl e \<Rightarrow> Inl e
      | Inr b \<Rightarrow>
          (case filter_err p xs of
             Inl e \<Rightarrow> Inl e
           | Inr ys \<Rightarrow> Inr (if b then x # ys else ys)))"

subsection \<open>Category ids of annotations\<close>

definition get_annotation_category_ids :: "annotation \<Rightarrow> int list" where
  "get_annotation_category_ids a =
     (case category_id a of
        Some c \<Rightarrow> [c]
      | None \<Rightarrow>
          (case a of
             PanopticSegmentationAnnotation im f ss \<Rightarrow> map si_category_id ss
           | _ \<Rightarrow> [-1]))"

definition get_annotations_category_ids :: "annotation list \<Rightarrow> int list" where
  "get_annotations_category_ids as = concat (map get_annotation_category_ids as)"

subsection \<open>Licenses\<close>

fun get_license :: "query \<Rightarrow> coco \<Rightarrow> error + license option" where
  "get_license (QInt k) d =
     (if k \<notin> set (license_ids d) then Inr None
      else err_bind (py_next (\<lambda>l. l_id l = k) (licenses d)) (\<lambda>l. Inr (Some l)))"
| "get_license (QStr s) d =
     (if s \<notin> set (license_names d) then Inr None
      else err_bind (py_next (\<lambda>l. l_name l = s) (licenses d)) (\<lambda>l. Inr (Some l)))"
| "get_license (QImage im) d =
     (if im \<notin> set (images d) then Inr None
      else err_bind (py_next (\<lambda>l. l_id l = i_license im) (licenses d)) (\<lambda>l. Inr (Some l)))"
| "get_license _ d = Inl TypeError"

text \<open>
  \<open>get_licenses\<close> collects the license ids of the images in a Python set and looks each
  one up again. The order in which a set is iterated is not fixed by the language; the
  model takes the order of first occurrence, and no property below depends on it.
  \<open>get_license(image).id\<close> raises \<open>AttributeError\<close> when the lookup returned \<open>None\<close>.
\<close>

definition get_licenses :: "query list \<Rightarrow> coco \<Rightarrow> error + license option list" where
  "get_licenses qs d =
     (if \<not> isinstances qs is_Image then Inl TypeError
      else err_bind
        (traverse (\<lambda>im. err_bind (get_license (QImage im) d)
            (\<lambda>r. case r of None \<Rightarrow> Inl AttributeError | Some l \<Rightarrow> Inr (l_id l))) (images_of qs))
        (\<lambda>ks. traverse (\<lambda>k. get_license (QInt k) d) (remdups ks)))"

subsection \<open>Images\<close>

fun get_image :: "query \<Rightarrow> coco \<Rightarrow> error + image option" where
  "get_image (QInt k) d =
     (if k \<notin> set (image_ids d) then Inr None
      else err_bind (py_next (\<lambda>im. i_id im = k) (images d)) (\<lambda>im. Inr (Some im)))"
| "get_image (QStr s) d =
     (if s \<notin> set (image_file_names d) then Inr None
      else err_bind (py_next (\<lambda>im. file_name im = s) (images d)) (\<lambda>im. Inr (Some im)))"
| "get_image (QAnnotation a) d =
     (if a \<notin> set (annotations d) then Inr None
      else err_bind (py_next (\<lambda>im. i_id im = image_id a) (images d)) (\<lambda>im. Inr (Some im)))"
| "get_image _ d = Inl TypeError"

subsection \<open>Annotations\<close>

fun get_annotation :: "query \<Rightarrow> coco \<Rightarrow> error + annotation" where
  "get_annotation (QInt k) d =
     (if k \<in> set (annotation_ids d)
      then py_next (\<lambda>a. a_id a = Some k) (filter is_Indexed (annotations d))
      else Inl TypeError)"
| "get_annotation _ d = Inl TypeError"

fun get_annotations :: "query \<Rightarrow> coco \<Rightarrow> error + annotation list" where
  "get_annotations (QInt k) d = Inr (filter (\<lambda>a. image_id a = k) (annotations d))"
| "get_annotations (QStr s) d =
     filter_err
       (\<lambda>a. err_bind (get_image (QInt (image_id a)) d)
          (\<lambda>r. case r of None \<Rightarrow> Inl AttributeError | Some im \<Rightarrow> Inr (file_name im = s)))
       (annotations d)"
| "get_annotations (QImage im) d = Inr (filter (\<lambda>a. image_id a = i_id im) (annotations d))"
| "get_annotations (QList qs) d =
     (if isinstances qs is_Image
      then Inr (filter (\<lambda>a. image_id a \<in> set (map i_id (images_of qs))) (annotations d))
      else Inl TypeError)"
| "get_annotations _ d = Inl TypeError"

subsection \<open>Categories\<close>

fun get_category :: "query \<Rightarrow> coco \<Rightarrow> error + category option" where
  "get_category q d =
     (if \<not> has_categories d then Inr None
      else case q of
          QInt k \<Rightarrow>
            (if k \<notin> set (category_ids d) then Inr None
             else err_bind (py_next (\<lambda>c. c_id c = k) (the_categories d)) (\<lambda>c. Inr (Some c)))
        | QStr s \<Rightarrow>
            (if s \<notin> set (category_names d) then Inr None
             else err_bind (py_next (\<lambda>c. c_name c = s) (the_categories d)) (\<lambda>c. Inr (Some c)))
        | QAnnotation a \<Rightarrow>
            (if is_Categorized_or_Panoptic a
             then (if a \<notin> set (annotations d) then Inr None
                   else err_bind
                     (py_next (\<lambda>c. c_id c \<in> set (get_annotation_category_ids a)) (the_categories d))
                     (\<lambda>c. Inr (Some c)))
             else Inl TypeError)
        | _ \<Rightarrow> Inl TypeError)"

fun get_categories :: "query \<Rightarrow> coco \<Rightarrow> error + category list" where
  "get_categories q d =
     (if \<not> has_categories d then Inr []
      else case q of
          QStr s \<Rightarrow> Inr (filter (\<lambda>c. supercategory c = s) (the_categories d))
        | QImage im \<Rightarrow>
            err_bind (get_annotations (QImage im) d)
              (\<lambda>as. Inr (filter (\<lambda>c. c_id c \<in> set (get_annotations_category_ids as))
                  (the_categories d)))
        | QList qs \<Rightarrow>
            (if isinstances qs is_Image
             then err_bind (get_annotations (QList qs) d)
               (\<lambda>as. Inr (filter (\<lambda>c. c_id c \<in> set (get_annotations_category_ids as))
                   (the_categories d)))
             else if isinstances qs is_Categorized_or_Panoptic_query
             then Inr (filter (\<lambda>c. c_id c \<in> set (get_annotations_category_ids (annotations_of qs)))
                   (the_categories d))
             else Inl TypeError)
        | _ \<Rightarrow> Inl TypeError)"

text \<open>
  In \<open>get_annotations_by_category\<close> the \<open>int\<close> and \<open>str\<close> branches read
  \<open>annotation.category_id\<close>, which a panoptic annotation does not have
  (\<open>AttributeError\<close>), and the \<open>str\<close> branch reads \<open>.name\<close> of the looked-up
  category, which may be \<open>None\<close>.
\<close>

fun get_annotations_by_category :: "query \<Rightarrow> coco \<Rightarrow> error + annotation list" where
  "get_annotations_by_category q d =
     (if \<not> has_categories d \<or> \<not> isinstances (annotations d) is_Categorized_or_Panoptic
      then Inr []
      else case q of
          QInt k \<Rightarrow>
            filter_err
              (\<lambda>a. case category_id a of None \<Rightarrow> Inl AttributeError | Some c \<Rightarrow> Inr (c = k))
              (annotations d)
        | QStr s \<Rightarrow>
            filter_err
              (\<lambda>a. case category_id a of
                  None \<Rightarrow> Inl AttributeError
                | Some c \<Rightarrow>
                    err_bind (get_category (QInt c) d)
                      (\<lambda>r. case r of None \<Rightarrow> Inl AttributeError
                                   | Some cat \<Rightarrow> Inr (c_name cat = s)))
              (annotations d)
        | QCategory c \<Rightarrow>
            Inr (filter (\<lambda>a. c_id c \<in> set (get_annotation_category_ids a)) (annotations d))
        | QList qs \<Rightarrow>
            (if isinstances qs is_Category
             then Inr (filter
                 (\<lambda>a. set (map c_id (categories_of qs)) \<inter> set (get_annotation_category_ids a) \<noteq> {})
                 (annotations d))
             else Inl TypeError)
        | _ \<Rightarrow> Inl TypeError)"

subsection \<open>Images by license, category or annotations\<close>

text \<open>The comprehension of the \<open>Category\<close> branch of \<open>get_images\<close>, which the branch for a
  list of categories calls once for each element (the recursive call
  \<open>self.get_images(category)\<close>, made only when the dataset has categories).\<close>

definition get_images_of_category :: "category \<Rightarrow> coco \<Rightarrow> error + image list" where
  "get_images_of_category c d =
     filter_err
       (\<lambda>im. err_bind (get_categories (QImage im) d) (\<lambda>cs. Inr (c_id c \<in> set (map c_id cs))))
       (images d)"

fun get_images :: "query \<Rightarrow> coco \<Rightarrow> error + image list" where
  "get_images (QInt k) d = Inr (filter (\<lambda>im. i_license im = k) (images d))"
| "get_images (QStr s) d =
     filter_err
       (\<lambda>im. err_bind (get_license (QStr s) d)
          (\<lambda>r. case r of None \<Rightarrow> Inl AttributeError | Some l \<Rightarrow> Inr (i_license im = l_id l)))
       (images d)"
| "get_images (QLicense l) d = Inr (filter (\<lambda>im. i_license im = l_id l) (images d))"
| "get_images (QCategory c) d =
     (if has_categories d then get_images_of_category c d else Inl TypeError)"
| "get_images (QList qs) d =
     (if isinstances qs is_Annotation
      then Inr (filter (\<lambda>im. i_id im \<in> set (map image_id (annotations_of qs))) (images d))
      else if isinstances qs is_Category \<and> has_categories d
      then err_bind (traverse (\<lambda>c. get_images_of_category c d) (categories_of qs))
             (\<lambda>xss. Inr (concat xss))
      else Inl TypeError)"
| "get_images _ d = Inl TypeError"

definition mk_license :: "int \<Rightarrow> string \<Rightarrow> license" where
  "mk_license k n = \<lparr>l_id = k, l_name = n, l_url = []\<rparr>"

definition captions_coco :: coco where
  "captions_coco = empty_coco\<lparr>
     licenses := [mk_license 1 ''CC-BY''],
     images := [mk_image 1 ''a.jpg'' 1, mk_image 2 ''b.jpg'' 1],
     annotations := [ImageCaptioningAnnotation 1 1 ''a dog'', ImageCaptioningAnnotation 2 2 ''a cat'']\<rparr>"

definition person_category :: category where
  "person_category = ObjectDetectionCategory 1 ''person'' ''human''"

section \<open>Mutation layer\<close>

text \<open>
  An object handed to an operation is either one of the objects stored in a collection,
  named by its position, or an object that only the caller holds. Two distinct objects
  may carry equal field values; the dataclasses compare by field values (\<open>==\<close>), and
  \<open>in\<close> and \<open>list.remove\<close> on a list use that comparison. A position past the end of
  the collection names no object; the operations leave the dataset as it is then.
\<close>

datatype 'a ref = Stored nat | Foreign 'a

fun value_of :: "'a list \<Rightarrow> 'a ref \<Rightarrow> 'a option" where
  "value_of xs (Stored i) = (if i < length xs then Some (xs ! i) else None)"
| "value_of xs (Foreign v) = Some v"

fun present_by_identity :: "'a list \<Rightarrow> 'a ref \<Rightarrow> bool" where
  "present_by_identity xs (Stored i) = (i < length xs)"
| "present_by_identity xs (Foreign v) = False"

subsection \<open>Trimming the reservation buffers\<close>

definition trim_cached_license_ids :: "coco \<Rightarrow> coco" where
  "trim_cached_license_ids d =
     d\<lparr>cached_license_ids := filter (\<lambda>k. k \<notin> set (license_ids d)) (cached_license_ids d)\<rparr>"

definition trim_cached_image_ids :: "coco \<Rightarrow> coco" where
  "trim_cached_image_ids d =
     d\<lparr>cached_image_ids := filter (\<lambda>k. k \<notin> set (image_ids d)) (cached_image_ids d)\<rparr>"

definition trim_cached_category_ids :: "coco \<Rightarrow> coco" where
  "trim_cached_category_ids d =
     d\<lparr>cached_category_ids := filter (\<lambda>k. k \<notin> set (category_ids d)) (cached_category_ids d)\<rparr>"

definition trim_cached_annotation_ids :: "coco \<Rightarrow> coco" where
  "trim_cached_annotation_ids d =
     d\<lparr>cached_annotation_ids :=
         filter (\<lambda>k. k \<notin> set (annotation_ids d)) (cached_annotation_ids d)\<rparr>"

subsection \<open>Appending\<close>

text \<open>The argument of each \<open>append\<close> is typed by its record type here, so the
  \<open>TypeError\<close> of the source's \<open>isinstance\<close> test has no input.\<close>

definition append_license :: "license \<Rightarrow> coco \<Rightarrow> error + coco" where
  "append_license l d =
     (if l_id l \<in> set (license_ids d) then Inl ValueError
      else Inr (trim_cached_license_ids (d\<lparr>licenses := licenses d @ [l]\<rparr>)))"

definition append_category :: "category \<Rightarrow> coco \<Rightarrow> error + coco" where
  "append_category c d =
     (let d1 = (if has_categories d then d else d\<lparr>categories := Some []\<rparr>)
      in if c_id c \<in> set (category_ids d1) then Inl ValueError
         else Inr (trim_cached_category_ids (d1\<lparr>categories := Some (the_categories d1 @ [c])\<rparr>)))"

definition append_image :: "image \<Rightarrow> coco \<Rightarrow> error + coco" where
  "append_image im d =
     (if i_id im \<in> set (image_ids d) then Inl ValueError
      else Inr (trim_cached_image_ids (d\<lparr>images := images d @ [im]\<rparr>)))"

definition append_annotation :: "annotation \<Rightarrow> coco \<Rightarrow> error + coco" where
  "append_annotation a d =
     (if is_Indexed a \<and> the (a_id a) \<in> set (annotation_ids d) then Inl ValueError
      else Inr (trim_cached_annotation_ids (d\<lparr>annotations := annotations d @ [a]\<rparr>)))"

subsection \<open>Removing\<close>

text \<open>
  \<open>x not in xs\<close> and \<open>xs.remove(x)\<close> look at the value of \<open>x\<close> only: \<open>remove1\<close>
  deletes the first element equal to it. The lists that the cascades hand on
  (\<open>remove_images\<close>, \<open>remove_annotaitons\<close>, spelt as in the source) are lists of
  stored objects; since every test is by value, they are handed on as values.
\<close>

definition remove_annotation :: "annotation ref \<Rightarrow> coco \<Rightarrow> coco" where
  "remove_annotation r d =
     (case value_of (annotations d) r of
        None \<Rightarrow> d
      | Some a \<Rightarrow>
          if a \<notin> set (annotations d) then d
          else d\<lparr>annotations := remove1 a (annotations d)\<rparr>)"

definition remove_annotaitons :: "annotation list \<Rightarrow> coco \<Rightarrow> coco" where
  "remove_annotaitons as d = fold (\<lambda>a. remove_annotation (Foreign a)) as d"

definition remove_image :: "image ref \<Rightarrow> bool \<Rightarrow> coco \<Rightarrow> error + coco" where
  "remove_image r remove_annotations d =
     (case value_of (images d) r of
        None \<Rightarrow> Inr d
      | Some im \<Rightarrow>
          if im \<notin> set (images d) then Inr d
          else let d1 = d\<lparr>images := remove1 im (images d)\<rparr>
               in if remove_annotations
                  then err_bind (get_annotations (QImage im) d1)
                         (\<lambda>as. Inr (remove_annotaitons as d1))
                  else Inr d1)"

fun remove_images :: "image list \<Rightarrow> bool \<Rightarrow> coco \<Rightarrow> error + coco" where
  "remove_images [] remove_annotations d = Inr d"
| "remove_images (im # ims) remove_annotations d =
     err_bind (remove_image (Foreign im) remove_annotations d)
       (remove_images ims remove_annotations)"

definition remove_license :: "license ref \<Rightarrow> bool \<Rightarrow> bool \<Rightarrow> coco \<Rightarrow> error + coco" where
  "remove_license r remove_imgs remove_annotations d =
     (case value_of (licenses d) r of
        None \<Rightarrow> Inr d
      | Some l \<Rightarrow>
          if l \<notin> set (licenses d) then Inr d
          else let d1 = d\<lparr>licenses := remove1 l (licenses d)\<rparr>
               in if remove_imgs
                  then err_bind (get_images (QLicense l) d1)
                         (\<lambda>ims. remove_images ims remove_annotations d1)
                  else Inr d1)"

definition remove_category :: "category ref \<Rightarrow> bool \<Rightarrow> coco \<Rightarrow> error + coco" where
  "remove_category r remove_annotations d =
     (if has_categories d
      then (case value_of (the_categories d) r of
              None \<Rightarrow> Inr d
            | Some c \<Rightarrow>
                if c \<notin> set (the_categories d) then Inr d
                else let d1 = d\<lparr>categories := Some (remove1 c (the_categories d))\<rparr>
                     in if remove_annotations
                        then err_bind (get_annotations_by_category (QCategory c) d1)
                               (\<lambda>as. Inr (remove_annotaitons as d1))
                        else Inr d1)
      else Inr d)"

subsection \<open>Trimming the dataset\<close>

definition trim_licenses :: "coco \<Rightarrow> coco" where
  "trim_licenses d =
     d\<lparr>licenses := filter (\<lambda>l. l_id l \<in> set (map i_license (images d))) (licenses d)\<rparr>"

definition trim_categories :: "coco \<Rightarrow> coco" where
  "trim_categories d =
     (if has_categories d \<and> isinstances (annotations d) is_Categorized
      then d\<lparr>categories :=
               Some (filter (\<lambda>c. c_id c \<in> set (map (\<lambda>a. the (category_id a)) (annotations d)))
                       (the_categories d))\<rparr>
      else d)"

definition trim_images :: "coco \<Rightarrow> coco" where
  "trim_images d =
     d\<lparr>images :=
         filter (\<lambda>im. i_id im \<in> set (map image_id (annotations d))
                      \<and> i_license im \<in> set (license_ids d))
           (images d)\<rparr>"

definition trim_annotations :: "coco \<Rightarrow> coco" where
  "trim_annotations d =
     d\<lparr>annotations := filter (\<lambda>a. image_id a \<in> set (image_ids d)) (annotations d)\<rparr>"

definition trim_dataset :: "coco \<Rightarrow> coco" where
  "trim_dataset d = trim_licenses (trim_categories (trim_images (trim_annotations d)))"

section \<open>Boundary functions: records from and to loosely typed mappings\<close>

text \<open>
  A mapping is an association list of keys and values; a decoded mapping has pairwise
  distinct keys. The constructors below build dataclass instances \<open>PObj c fs\<close>: Python
  stores whatever value it is given in an attribute, so the instances built from a
  mapping are kept loosely typed.
\<close>

definition keys :: "(string \<times> pyval) list \<Rightarrow> string list" where
  "keys m = map fst m"

text \<open>\<open>m[k]\<close>.\<close>

definition getitem :: "(string \<times> pyval) list \<Rightarrow> string \<Rightarrow> error + pyval" where
  "getitem m k = (case map_of m k of None \<Rightarrow> Inl KeyError | Some v \<Rightarrow> Inr v)"

text \<open>\<open>for x in v\<close>: a list yields its elements, a mapping its keys, a string its
  characters; the other values are not iterable.\<close>

fun py_iter :: "pyval \<Rightarrow> error + pyval list" where
  "py_iter (PList xs) = Inr xs"
| "py_iter (PDict m) = Inr (map PStr (keys m))"
| "py_iter (PStr s) = Inr (map (\<lambda>c. PStr [c]) s)"
| "py_iter _ = Inl TypeError"

text \<open>
  \<open>compare_dict_structure\<close>, given the field names of the dataclass. Reading
  \<open>.keys()\<close> of a value that is not a mapping raises \<open>AttributeError\<close>.
\<close>

fun compare_dict_structure :: "pyval \<Rightarrow> string list \<Rightarrow> bool \<Rightarrow> error + unit" where
  "compare_dict_structure (PDict m) field_names ignore_extra_keys =
     (let missed_keys = filter (\<lambda>f. f \<notin> set (keys m)) field_names;
          extra_keys = filter (\<lambda>k. k \<notin> set field_names) (keys m)
      in if missed_keys \<noteq> [] then Inl ValueError
         else if extra_keys \<noteq> [] \<and> \<not> ignore_extra_keys then Inl ValueError
         else Inr ())"
| "compare_dict_structure _ field_names ignore_extra_keys = Inl AttributeError"

text \<open>\<open>cls(**m)\<close> for a dataclass with the given fields, called once every field is known
  to be a key of \<open>m\<close>: a key that is not a field is an unexpected keyword argument.\<close>

definition construct :: "string \<Rightarrow> string list \<Rightarrow> (string \<times> pyval) list \<Rightarrow> error + pyval" where
  "construct cls field_names m =
     (if \<exists>k \<in> set (keys m). k \<notin> set field_names then Inl TypeError
      else err_bind (traverse (\<lambda>f. err_bind (getitem m f) (\<lambda>v. Inr (f, v))) field_names)
             (\<lambda>fs. Inr (PObj cls fs)))"

text \<open>The classes whose \<open>from_dict\<close> is \<open>compare_dict_structure\<close> followed by
  \<open>cls(**m)\<close>.\<close>

definition from_dict_kwargs :: "string \<Rightarrow> string list \<Rightarrow> pyval \<Rightarrow> bool \<Rightarrow> error + pyval" where
  "from_dict_kwargs cls field_names v ignore_extra_keys =
     err_bind (compare_dict_structure v field_names ignore_extra_keys)
       (\<lambda>_. case v of PDict m \<Rightarrow> construct cls field_names m | _ \<Rightarrow> Inl AttributeError)"

definition Info_fields :: "string list" where
  "Info_fields = [''year'', ''version'', ''description'', ''contributor'', ''url'', ''date_created'']"

definition License_fields :: "string list" where
  "License_fields = [''id'', ''name'', ''url'']"

definition Image_fields :: "string list" where
  "Image_fields = [''id'', ''width'', ''height'', ''file_name'', ''license'', ''flickr_url'',
     ''coco_url'', ''date_captured'']"

definition ObjectDetectionCategory_fields :: "string list" where
  "ObjectDetectionCategory_fields = [''id'', ''name'', ''supercategory'']"

definition KeypointDetectionCategory_fields :: "string list" where
  "KeypointDetectionCategory_fields = ObjectDetectionCategory_fields @ [''keypoints'', ''skeleton'']"

definition PanopticSegmentationCategory_fields :: "string list" where
  "PanopticSegmentationCategory_fields = ObjectDetectionCategory_fields @ [''isthing'', ''color'']"

definition RLE_fields :: "string list" where
  "RLE_fields = [''counts'', ''size'']"

definition SegmentInfo_fields :: "string list" where
  "SegmentInfo_fields = [''id'', ''category_id'', ''area'', ''bbox'', ''iscrowd'']"

definition ObjectDetectionAnnotation_fields :: "string list" where
  "ObjectDetectionAnnotation_fields =
     [''id'', ''image_id'', ''category_id'', ''segmentation'', ''area'', ''bbox'', ''iscrowd'']"

definition KeypointDetectionAnnotation_fields :: "string list" where
  "KeypointDetectionAnnotation_fields =
     ObjectDetectionAnnotation_fields @ [''keypoints'', ''num_keypoints'']"

definition PanopticSegmentationAnnotation_fields :: "string list" where
  "PanopticSegmentationAnnotation_fields = [''image_id'', ''file_name'', ''segments_info'']"

definition ImageCaptioningAnnotation_fields :: "string list" where
  "ImageCaptioningAnnotation_fields = [''id'', ''image_id'', ''caption'']"

definition DensePoseAnnotation_fields :: "string list" where
  "DensePoseAnnotation_fields =
     [''id'', ''image_id'', ''category_id'', ''is_crowd'', ''area'', ''bbox'', ''dp_I'', ''dp_U'',
      ''dp_V'', ''dp_x'', ''dp_y'', ''dp_masks'']"

definition COCO_fields :: "string list" where
  "COCO_fields = [''info'', ''licenses'', ''categories'', ''images'', ''annotations'']"

definition Info_from_dict :: "pyval \<Rightarrow> bool \<Rightarrow> error + pyval" where
  "Info_from_dict = from_dict_kwargs ''Info'' Info_fields"

definition License_from_dict :: "pyval \<Rightarrow> bool \<Rightarrow> error + pyval" where
  "License_from_dict = from_dict_kwargs ''License'' License_fields"

definition Image_from_dict :: "pyval \<Rightarrow> bool \<Rightarrow> error + pyval" where
  "Image_from_dict = from_dict_kwargs ''Image'' Image_fields"

definition RLE_from_dict :: "pyval \<Rightarrow> bool \<Rightarrow> error + pyval" where
  "RLE_from_dict = from_dict_kwargs ''RLE'' RLE_fields"

definition SegmentInfo_from_dict :: "pyval \<Rightarrow> bool \<Rightarrow> error + pyval" where
  "SegmentInfo_from_dict = from_dict_kwargs ''SegmentInfo'' SegmentInfo_fields"

definition ImageCaptioningAnnotation_from_dict :: "pyval \<Rightarrow> bool \<Rightarrow> error + pyval" where
  "ImageCaptioningAnnotation_from_dict =
     from_dict_kwargs ''ImageCaptioningAnnotation'' ImageCaptioningAnnotation_fields"

definition ObjectDetectionCategory_from_dict :: "pyval \<Rightarrow> bool \<Rightarrow> error + pyval" where
  "ObjectDetectionCategory_from_dict =
     from_dict_kwargs ''ObjectDetectionCategory'' ObjectDetectionCategory_fields"

definition KeypointDetectionCategory_from_dict :: "pyval \<Rightarrow> bool \<Rightarrow> error + pyval" where
  "KeypointDetectionCategory_from_dict =
     from_dict_kwargs ''KeypointDetectionCategory'' KeypointDetectionCategory_fields"

definition PanopticSegmentationCategory_from_dict :: "pyval \<Rightarrow> bool \<Rightarrow> error + pyval" where
  "PanopticSegmentationCategory_from_dict =
     from_dict_kwargs ''PanopticSegmentationCategory'' PanopticSegmentationCategory_fields"

text \<open>The constructors that name each argument read the keys they need and no other.
  \<open>segmentation\<close> becomes an \<open>RLE\<close> when the value is a mapping.\<close>

definition segmentation_of :: "pyval \<Rightarrow> bool \<Rightarrow> error + pyval" where
  "segmentation_of v ignore_index =
     (case v of PDict m \<Rightarrow> RLE_from_dict v ignore_index | _ \<Rightarrow> Inr v)"

text \<open>The attributes \<open>names\<close> read from \<open>m\<close> in order, \<open>segmentation\<close> converted.\<close>

definition read_fields :: "(string \<times> pyval) list \<Rightarrow> bool \<Rightarrow> string list
    \<Rightarrow> error + (string \<times> pyval) list" where
  "read_fields m ignore_index names =
     traverse (\<lambda>f. err_bind (getitem m f)
        (\<lambda>v. if f = ''segmentation''
              then err_bind (segmentation_of v ignore_index) (\<lambda>s. Inr (f, s))
              else Inr (f, v))) names"

definition ObjectDetectionAnnotation_from_dict :: "pyval \<Rightarrow> bool \<Rightarrow> error + pyval" where
  "ObjectDetectionAnnotation_from_dict v ignore_index =
     err_bind (compare_dict_structure v ObjectDetectionAnnotation_fields ignore_index)
       (\<lambda>_. case v of
          PDict m \<Rightarrow>
            err_bind (read_fields m ignore_index ObjectDetectionAnnotation_fields)
              (\<lambda>fs. Inr (PObj ''ObjectDetectionAnnotation'' fs))
        | _ \<Rightarrow> Inl AttributeError)"

text \<open>The keyword arguments of \<open>KeypointDetectionAnnotation.from_dict\<close> are evaluated
  in the order written: \<open>keypoints\<close> and \<open>num_keypoints\<close> before \<open>segmentation\<close>.
  The instance lists its attributes in field order.\<close>

definition KeypointDetectionAnnotation_from_dict :: "pyval \<Rightarrow> bool \<Rightarrow> error + pyval" where
  "KeypointDetectionAnnotation_from_dict v ignore_index =
     err_bind (compare_dict_structure v KeypointDetectionAnnotation_fields ignore_index)
       (\<lambda>_. case v of
          PDict m \<Rightarrow>
            err_bind (read_fields m ignore_index
                [''id'', ''image_id'', ''category_id'', ''keypoints'', ''num_keypoints'',
                 ''segmentation'', ''area'', ''bbox'', ''iscrowd''])
              (\<lambda>fs. construct ''KeypointDetectionAnnotation'' KeypointDetectionAnnotation_fields fs)
        | _ \<Rightarrow> Inl AttributeError)"

text \<open>\<open>PanopticSegmentationAnnotation.from_dict\<close> hands the whole value of
  \<open>segments_info\<close> to \<open>SegmentInfo.from_dict\<close>.\<close>

definition PanopticSegmentationAnnotation_from_dict :: "pyval \<Rightarrow> bool \<Rightarrow> error + pyval" where
  "PanopticSegmentationAnnotation_from_dict v ignore_index =
     err_bind (compare_dict_structure v PanopticSegmentationAnnotation_fields ignore_index)
       (\<lambda>_. case v of
          PDict m \<Rightarrow>
            err_bind (getitem m ''image_id'') (\<lambda>im.
            err_bind (getitem m ''file_name'') (\<lambda>f.
            err_bind (getitem m ''segments_info'') (\<lambda>ss.
            err_bind (SegmentInfo_from_dict ss ignore_index) (\<lambda>s.
              Inr (PObj ''PanopticSegmentationAnnotation''
                     [(''image_id'', im), (''file_name'', f), (''segments_info'', s)])))))
        | _ \<Rightarrow> Inl AttributeError)"

definition DensePoseAnnotation_from_dict :: "pyval \<Rightarrow> bool \<Rightarrow> error + pyval" where
  "DensePoseAnnotation_from_dict v ignore_index =
     err_bind (compare_dict_structure v DensePoseAnnotation_fields ignore_index)
       (\<lambda>_. case v of
          PDict m \<Rightarrow>
            err_bind (read_fields m ignore_index (butlast DensePoseAnnotation_fields)) (\<lambda>fs.
            err_bind (getitem m ''dp_masks'') (\<lambda>ms.
            err_bind (py_iter ms) (\<lambda>masks.
            err_bind (traverse (\<lambda>mask. RLE_from_dict mask ignore_index) masks) (\<lambda>rles.
              Inr (PObj ''DensePoseAnnotation'' (fs @ [(''dp_masks'', PList rles)]))))))
        | _ \<Rightarrow> Inl AttributeError)"

subsection \<open>The variant dispatchers\<close>

definition DICT_TO_ANNOTATION_MAP :: "string \<Rightarrow> string list" where
  "DICT_TO_ANNOTATION_MAP k =
     (if k = ''object_detection''
        then [''id'', ''image_id'', ''category_id'', ''segmentation'', ''area'', ''bbox'', ''iscrowd'']
      else if k = ''keypoint_detection''
        then [''id'', ''image_id'', ''category_id'', ''segmentation'', ''area'', ''bbox'', ''iscrowd'',
              ''keypoints'', ''skeleton'']
      else if k = ''panoptic_segmentation'' then [''image_id'', ''file_name'', ''segments_info'']
      else if k = ''image_captioning'' then [''id'', ''image_id'', ''caption'']
      else if k = ''dense_pose''
        then [''id'', ''image_id'', ''category_id'', ''is_crowd'', ''area'', ''bbox'', ''dp_I'',
              ''dp_U'', ''dp_V'', ''dp_x'', ''dp_y'', ''dp_masks'']
      else [])"

definition DICT_TO_CATEGORY_MAP :: "string \<Rightarrow> string list" where
  "DICT_TO_CATEGORY_MAP k =
     (if k = ''object_detection'' then [''id'', ''name'', ''supercategory'']
      else if k = ''keypoint_detection''
        then [''id'', ''name'', ''supercategory'', ''keypoints'', ''skeleton'']
      else if k = ''panoptic_segmentation''
        then [''id'', ''name'', ''supercategory'', ''isthing'', ''color'']
      else [])"

text \<open>\<open>set(ks).issubset(m.keys())\<close>.\<close>

definition issubset :: "string list \<Rightarrow> (string \<times> pyval) list \<Rightarrow> bool" where
  "issubset ks m = list_all (\<lambda>k. k \<in> set (keys m)) ks"

fun dict_to_annotation :: "pyval \<Rightarrow> bool \<Rightarrow> error + pyval" where
  "dict_to_annotation (PDict m) ignore_extra_keys =
     (if issubset (DICT_TO_ANNOTATION_MAP ''object_detection'') m
        then ObjectDetectionAnnotation_from_dict (PDict m) ignore_extra_keys
      else if issubset (DICT_TO_ANNOTATION_MAP ''keypoint_detection'') m
        then KeypointDetectionAnnotation_from_dict (PDict m) ignore_extra_keys
      else if issubset (DICT_TO_ANNOTATION_MAP ''panoptic_segmentation'') m
        then PanopticSegmentationAnnotation_from_dict (PDict m) ignore_extra_keys
      else if issubset (DICT_TO_ANNOTATION_MAP ''image_captioning'') m
        then ImageCaptioningAnnotation_from_dict (PDict m) ignore_extra_keys
      else if issubset (DICT_TO_ANNOTATION_MAP ''dense_pose'') m
        then DensePoseAnnotation_from_dict (PDict m) ignore_extra_keys
      else Inl ValueError)"
| "dict_to_annotation _ ignore_extra_keys = Inl AttributeError"

fun dict_to_category :: "pyval \<Rightarrow> bool \<Rightarrow> error + pyval" where
  "dict_to_category (PDict m) ignore_extra_keys =
     (if issubset (DICT_TO_CATEGORY_MAP ''object_detection'') m
        then ObjectDetectionCategory_from_dict (PDict m) ignore_extra_keys
      else if issubset (DICT_TO_CATEGORY_MAP ''keypoint_detection'') m
        then KeypointDetectionCategory_from_dict (PDict m) ignore_extra_keys
      else if issubset (DICT_TO_CATEGORY_MAP ''panoptic_segmentation'') m
        then PanopticSegmentationCategory_from_dict (PDict m) ignore_extra_keys
      else Inl ValueError)"
| "dict_to_category _ ignore_extra_keys = Inl AttributeError"

subsection \<open>The dataset from and to a mapping\<close>

text \<open>\<open>COCO.from_dict\<close> compares the structure with the default policy, builds the
  annotations with the default policy too, and evaluates its keyword arguments in the
  order written: \<open>info\<close>, \<open>licenses\<close>, \<open>images\<close>, \<open>annotations\<close>, \<open>categories\<close>.\<close>

definition from_dict :: "pyval \<Rightarrow> bool \<Rightarrow> error + pyval" where
  "from_dict v ignore_extra_keys =
     err_bind (compare_dict_structure v COCO_fields True)
       (\<lambda>_. case v of
          PDict m \<Rightarrow>
            err_bind (getitem m ''info'') (\<lambda>i.
            err_bind (Info_from_dict i ignore_extra_keys) (\<lambda>inf.
            err_bind (getitem m ''licenses'') (\<lambda>ls.
            err_bind (py_iter ls) (\<lambda>ls.
            err_bind (traverse (\<lambda>l. License_from_dict l ignore_extra_keys) ls) (\<lambda>lics.
            err_bind (getitem m ''images'') (\<lambda>ims.
            err_bind (py_iter ims) (\<lambda>ims.
            err_bind (traverse (\<lambda>im. Image_from_dict im ignore_extra_keys) ims) (\<lambda>imgs.
            err_bind (getitem m ''annotations'') (\<lambda>as.
            err_bind (py_iter as) (\<lambda>as.
            err_bind (traverse (\<lambda>a. dict_to_annotation a True) as) (\<lambda>anns.
            err_bind
              (if ''categories'' \<in> set (keys m)
               then err_bind (getitem m ''categories'') (\<lambda>cs.
                    err_bind (py_iter cs) (\<lambda>cs.
                    err_bind (traverse (\<lambda>c. dict_to_category c ignore_extra_keys) cs)
                      (\<lambda>cats. Inr (PList cats))))
               else Inr PNone)
              (\<lambda>cats.
                 Inr (PObj ''COCO''
                   [(''info'', inf), (''licenses'', PList lics), (''categories'', cats),
                    (''images'', PList imgs), (''annotations'', PList anns)])))))))))))))
        | _ \<Rightarrow> Inl AttributeError)"

text \<open>\<open>dataclasses.asdict\<close>: every dataclass instance becomes a mapping of its fields,
  recursively through lists and mappings.\<close>

fun asdict_value :: "pyval \<Rightarrow> pyval" where
  "asdict_value (PObj c fs) = PDict (map (\<lambda>(k, v). (k, asdict_value v)) fs)"
| "asdict_value (PList xs) = PList (map asdict_value xs)"
| "asdict_value (PDict m) = PDict (map (\<lambda>(k, v). (k, asdict_value v)) m)"
| "asdict_value v = v"

definition asdict_info :: "info \<Rightarrow> pyval" where
  "asdict_info i = PDict [(''year'', PInt (year i)), (''version'', PStr (version i)),
     (''description'', PStr (description i)), (''contributor'', PStr (contributor i)),
     (''url'', PStr (info_url i)), (''date_created'', PStr (date_created i))]"

definition asdict_license :: "license \<Rightarrow> pyval" where
  "asdict_license l = PDict [(''id'', PInt (l_id l)), (''name'', PStr (l_name l)),
     (''url'', PStr (l_url l))]"

definition asdict_image :: "image \<Rightarrow> pyval" where
  "asdict_image im = PDict [(''id'', PInt (i_id im)), (''width'', PInt (width im)),
     (''height'', PInt (height im)), (''file_name'', PStr (file_name im)),
     (''license'', PInt (i_license im)), (''flickr_url'', PStr (flickr_url im)),
     (''coco_url'', PStr (coco_url im)), (''date_captured'', PStr (date_captured im))]"

fun asdict_category :: "category \<Rightarrow> pyval" where
  "asdict_category (ObjectDetectionCategory i n s) =
     PDict [(''id'', PInt i), (''name'', PStr n), (''supercategory'', PStr s)]"
| "asdict_category (KeypointDetectionCategory i n s k sk) =
     PDict [(''id'', PInt i), (''name'', PStr n), (''supercategory'', PStr s),
            (''keypoints'', asdict_value k), (''skeleton'', asdict_value sk)]"
| "asdict_category (PanopticSegmentationCategory i n s t c) =
     PDict [(''id'', PInt i), (''name'', PStr n), (''supercategory'', PStr s),
            (''isthing'', asdict_value t), (''color'', asdict_value c)]"

definition asdict_detection_payload :: "detection_payload \<Rightarrow> (string \<times> pyval) list" where
  "asdict_detection_payload p =
     [(''segmentation'', asdict_value (segmentation p)), (''area'', asdict_value (area p)),
      (''bbox'', asdict_value (bbox p)), (''iscrowd'', asdict_value (iscrowd p))]"

definition asdict_segment_info :: "segment_info \<Rightarrow> pyval" where
  "asdict_segment_info s = PDict [(''id'', PInt (si_id s)), (''category_id'', PInt (si_category_id s)),
     (''area'', asdict_value (si_area s)), (''bbox'', asdict_value (si_bbox s)),
     (''iscrowd'', asdict_value (si_iscrowd s))]"

fun asdict_annotation :: "annotation \<Rightarrow> pyval" where
  "asdict_annotation (ObjectDetectionAnnotation i im c p) =
     PDict ([(''id'', PInt i), (''image_id'', PInt im), (''category_id'', PInt c)]
            @ asdict_detection_payload p)"
| "asdict_annotation (KeypointDetectionAnnotation i im c p k n) =
     PDict ([(''id'', PInt i), (''image_id'', PInt im), (''category_id'', PInt c)]
            @ asdict_detection_payload p
            @ [(''keypoints'', asdict_value k), (''num_keypoints'', asdict_value n)])"
| "asdict_annotation (StuffSegmentationAnnotation i im c p) =
     PDict ([(''id'', PInt i), (''image_id'', PInt im), (''category_id'', PInt c)]
            @ asdict_detection_payload p)"
| "asdict_annotation (PanopticSegmentationAnnotation im f ss) =
     PDict [(''image_id'', PInt im), (''file_name'', PStr f),
            (''segments_info'', PList (map asdict_segment_info ss))]"
| "asdict_annotation (ImageCaptioningAnnotation i im t) =
     PDict [(''id'', PInt i), (''image_id'', PInt im), (''caption'', PStr t)]"
| "asdict_annotation (DensePoseAnnotation i im c p) =
     PDict [(''id'', PInt i), (''image_id'', PInt im), (''category_id'', PInt c),
            (''is_crowd'', asdict_value (dp_is_crowd p)), (''area'', asdict_value (dp_area p)),
            (''bbox'', asdict_value (dp_bbox p)), (''dp_I'', asdict_value (dp_I p)),
            (''dp_U'', asdict_value (dp_U p)), (''dp_V'', asdict_value (dp_V p)),
            (''dp_x'', asdict_value (dp_x p)), (''dp_y'', asdict_value (dp_y p)),
            (''dp_masks'', asdict_value (dp_masks p))]"

definition asdict :: "coco \<Rightarrow> (string \<times> pyval) list" where
  "asdict d =
     [(''info'', asdict_info (info d)),
      (''licenses'', PList (map asdict_license (licenses d))),
      (''categories'',
         (case categories d of None \<Rightarrow> PNone | Some cs \<Rightarrow> PList (map asdict_category cs))),
      (''images'', PList (map asdict_image (images d))),
      (''annotations'', PList (map asdict_annotation (annotations d)))]"

text \<open>
  \<open>to_dict\<close> is the comprehension
  \<^verbatim>\<open>{key: value for key, value in asdict(self) if value is not None}\<close>.
  Iterating a mapping yields its keys, so each step unpacks a key, a string, into the
  two targets \<open>key\<close> and \<open>value\<close>: a string of two characters gives them one character
  each, any other length raises \<open>ValueError\<close>. The values unpacked are strings, never
  \<open>None\<close>, so the filter keeps each pair.
\<close>

fun unpack_pair :: "string \<Rightarrow> error + (string \<times> pyval)" where
  "unpack_pair [a, b] = Inr ([a], PStr [b])"
| "unpack_pair _ = Inl ValueError"

definition to_dict :: "coco \<Rightarrow> error + pyval" where
  "to_dict d =
     err_bind (traverse unpack_pair (keys (asdict d)))
       (\<lambda>kvs. Inr (PDict (filter (\<lambda>(k, v). v \<noteq> PNone) kvs)))"

text \<open>The round trip of the boundary functions.\<close>

definition round_trip :: "coco \<Rightarrow> error + pyval" where
  "round_trip d = err_bind (to_dict d) (\<lambda>m. from_dict m True)"

section \<open>Splitting\<close>

text \<open>
  One side of a split: a new dataset (with empty reservation buffers) that carries the
  given images, and the licenses, annotations and categories that the query layer finds
  for them, copied. The keyword arguments are evaluated in the order written:
  \<open>licenses\<close>, \<open>annotations\<close>, \<open>categories\<close>. \<open>get_licenses\<close> returns what
  \<open>get_license\<close> returned for each id; the licenses among them are kept.
\<close>

definition sub_dataset :: "image list \<Rightarrow> coco \<Rightarrow> error + coco" where
  "sub_dataset subimages d =
     err_bind (get_licenses (map QImage subimages) d) (\<lambda>ls.
     err_bind (get_annotations (QList (map QImage subimages)) d) (\<lambda>as.
     err_bind (get_categories (QList (map QImage subimages)) d) (\<lambda>cs.
       Inr \<lparr>info = info d, licenses = List.map_filter (\<lambda>l. l) ls, categories = Some cs,
            images = subimages, annotations = as,
            cached_license_ids = [], cached_image_ids = [], cached_category_ids = [],
            cached_annotation_ids = []\<rparr>)))"

text \<open>
  \<open>split\<close>. The shuffle of the standard library, seeded with \<open>seed\<close>, is a parameter:
  \<open>shuffle seed xs\<close> is the list that \<open>random.seed(seed); random.shuffle(xs)\<close> leaves
  in \<open>xs\<close>, some permutation of it. The ratio is a rational here and the product
  \<open>len(self.images) * percentage\<close> is exact; \<open>int\<close> truncates it, and the product is
  not negative. (For ten images and the ratio 0.3 the floating-point product is exactly
  3.0, so the source cuts at 3 as well.)
\<close>

definition split :: "(int \<Rightarrow> image list \<Rightarrow> image list) \<Rightarrow> rat \<Rightarrow> int \<Rightarrow> coco
    \<Rightarrow> error + (coco \<times> coco)" where
  "split shuffle percentage seed d =
     (if percentage > 1 \<or> percentage < 0 then Inl ValueError
      else let imgs = shuffle seed (images d);
               point = nat \<lfloor>of_nat (length (images d)) * percentage\<rfloor>
           in err_bind (sub_dataset (take point imgs) d) (\<lambda>a.
              err_bind (sub_dataset (drop point imgs) d) (\<lambda>b. Inr (a, b))))"

definition category_based_split :: "rat \<Rightarrow> int \<Rightarrow> coco \<Rightarrow> error + (coco \<times> coco)" where
  "category_based_split percentage seed d = Inl NotImplementedError"

section \<open>Reindex engine\<close>

text \<open>
  A reindex operation assigns to attributes of objects in place. The objects that a query
  returned are stored objects; \<open>for x in self.get_...(...): x.attr = v\<close> therefore
  updates, in the collection, each element that the query selected. The queries used
  select by a test on field values, so the elements selected are those equal to a member
  of the list returned.
\<close>

definition update_selected :: "'a list \<Rightarrow> ('a \<Rightarrow> 'a) \<Rightarrow> 'a list \<Rightarrow> 'a list" where
  "update_selected selected f xs = map (\<lambda>x. if x \<in> set selected then f x else x) xs"

text \<open>The position of the object that \<open>next(x for x in xs if P(x))\<close> returns, when
  there is one: the first element that passes the test.\<close>

definition position :: "('a \<Rightarrow> bool) \<Rightarrow> 'a list \<Rightarrow> nat" where
  "position P xs = length (takeWhile (\<lambda>x. \<not> P x) xs)"

text \<open>\<open>new_id\<close>, or a generated id when it is \<open>None\<close>.\<close>

definition id_or_new :: "int option \<Rightarrow> (coco \<Rightarrow> error + (int \<times> coco)) \<Rightarrow> coco
    \<Rightarrow> error + (int \<times> coco)" where
  "id_or_new new_id generate d = (case new_id of None \<Rightarrow> generate d | Some k \<Rightarrow> Inr (k, d))"

subsection \<open>One record\<close>

definition reindex_license :: "license ref \<Rightarrow> int option \<Rightarrow> coco \<Rightarrow> error + coco" where
  "reindex_license r new_id d =
     (case value_of (licenses d) r of
        None \<Rightarrow> Inr d
      | Some l \<Rightarrow>
          err_bind (id_or_new new_id get_new_license_id d) (\<lambda>(k, d1).
          err_bind (get_images (QLicense l) d1) (\<lambda>ims.
            let d2 = d1\<lparr>images := update_selected ims (\<lambda>im. im\<lparr>i_license := k\<rparr>) (images d1)\<rparr>
            in Inr (case r of
                      Stored i \<Rightarrow> d2\<lparr>licenses := (licenses d2)[i := l\<lparr>l_id := k\<rparr>]\<rparr>
                    | Foreign v \<Rightarrow> d2))))"

text \<open>What \<open>reindex_category\<close> does to one annotation of the category: a categorized
  annotation takes the new id, a panoptic one rewrites the segments of the category.\<close>

fun set_category_id :: "int \<Rightarrow> annotation \<Rightarrow> annotation" where
  "set_category_id j (ObjectDetectionAnnotation i im c p) = ObjectDetectionAnnotation i im j p"
| "set_category_id j (KeypointDetectionAnnotation i im c p k n) =
     KeypointDetectionAnnotation i im j p k n"
| "set_category_id j (StuffSegmentationAnnotation i im c p) = StuffSegmentationAnnotation i im j p"
| "set_category_id j (PanopticSegmentationAnnotation im f ss) = PanopticSegmentationAnnotation im f ss"
| "set_category_id j (ImageCaptioningAnnotation i im t) = ImageCaptioningAnnotation i im t"
| "set_category_id j (DensePoseAnnotation i im c p) = DensePoseAnnotation i im j p"

fun recategorize :: "int \<Rightarrow> int \<Rightarrow> annotation \<Rightarrow> annotation" where
  "recategorize old new (PanopticSegmentationAnnotation im f ss) =
     PanopticSegmentationAnnotation im f
       (map (\<lambda>s. if si_category_id s = old then s\<lparr>si_category_id := new\<rparr> else s) ss)"
| "recategorize old new a = (if is_Categorized a then set_category_id new a else a)"

definition reindex_category :: "category ref \<Rightarrow> int option \<Rightarrow> coco \<Rightarrow> error + coco" where
  "reindex_category r new_id d =
     (if \<not> has_categories d then Inr d
      else case value_of (the_categories d) r of
          None \<Rightarrow> Inr d
        | Some c \<Rightarrow>
            err_bind (id_or_new new_id get_new_category_id d) (\<lambda>(k, d1).
            err_bind (get_annotations_by_category (QCategory c) d1) (\<lambda>as.
              let d2 = d1\<lparr>annotations := update_selected as (recategorize (c_id c) k) (annotations d1)\<rparr>
              in Inr (case r of
                        Stored i \<Rightarrow> d2\<lparr>categories := Some ((the_categories d2)[i := set_c_id k c])\<rparr>
                      | Foreign v \<Rightarrow> d2))))"

definition reindex_image :: "image ref \<Rightarrow> int option \<Rightarrow> coco \<Rightarrow> error + coco" where
  "reindex_image r new_id d =
     (case value_of (images d) r of
        None \<Rightarrow> Inr d
      | Some im \<Rightarrow>
          err_bind (id_or_new new_id get_new_image_id d) (\<lambda>(k, d1).
          err_bind (get_annotations (QImage im) d1) (\<lambda>as.
            let d2 = d1\<lparr>annotations := update_selected as (set_image_id k) (annotations d1)\<rparr>
            in Inr (case r of
                      Stored i \<Rightarrow> d2\<lparr>images := (images d2)[i := im\<lparr>i_id := k\<rparr>]\<rparr>
                    | Foreign v \<Rightarrow> d2))))"

text \<open>\<open>set_a_id\<close> leaves an annotation without \<open>id\<close> as it is, which is the test
  \<open>isinstance(annotation, Indexed)\<close>.\<close>

definition reindex_annotation :: "annotation ref \<Rightarrow> int option \<Rightarrow> coco \<Rightarrow> error + coco" where
  "reindex_annotation r new_id d =
     (case value_of (annotations d) r of
        None \<Rightarrow> Inr d
      | Some a \<Rightarrow>
          err_bind (id_or_new new_id get_new_annotation_id d) (\<lambda>(k, d1).
            Inr (case r of
                   Stored i \<Rightarrow> d1\<lparr>annotations := (annotations d1)[i := set_a_id k a]\<rparr>
                 | Foreign v \<Rightarrow> d1)))"

subsection \<open>A whole collection\<close>

text \<open>\<open>if not new_ids: new_ids = list(range(n))\<close>: \<open>None\<close> and the empty list both
  give the dense sequence.\<close>

definition ids_or_range :: "int list option \<Rightarrow> nat \<Rightarrow> int list" where
  "ids_or_range new_ids n =
     (case new_ids of
        None \<Rightarrow> map int [0..<n]
      | Some ks \<Rightarrow> if ks = [] then map int [0..<n] else ks)"

text \<open>
  Making room for \<open>new_id\<close>: the record that holds it, found by the singular lookup, is
  reindexed to a generated id. The generated id is an argument of the call, so it is
  generated first. A lookup that returned \<open>None\<close> would hand \<open>None\<close> to the reindex
  operation, whose query raises \<open>TypeError\<close> for it.
\<close>

definition displace_license :: "int \<Rightarrow> coco \<Rightarrow> error + coco" where
  "displace_license k d =
     (if k \<in> set (license_ids d)
      then err_bind (get_license (QInt k) d) (\<lambda>dup.
           err_bind (get_new_license_id d) (\<lambda>(fresh, d1).
             case dup of
               None \<Rightarrow> Inl TypeError
             | Some l \<Rightarrow>
                 reindex_license (Stored (position (\<lambda>l. l_id l = k) (licenses d))) (Some fresh) d1))
      else Inr d)"

text \<open>\<open>reindex_licenses\<close> makes room for every new id first and then assigns the new ids
  in a second loop.\<close>

fun displace_licenses :: "int list \<Rightarrow> coco \<Rightarrow> error + coco" where
  "displace_licenses [] d = Inr d"
| "displace_licenses (k # ks) d = err_bind (displace_license k d) (displace_licenses ks)"

fun assign_licenses :: "nat \<Rightarrow> int list \<Rightarrow> coco \<Rightarrow> error + coco" where
  "assign_licenses i [] d = Inr d"
| "assign_licenses i (k # ks) d =
     (if i < length (licenses d)
      then err_bind (reindex_license (Stored i) (Some k) d) (assign_licenses (Suc i) ks)
      else Inr d)"

definition reindex_licenses :: "int list option \<Rightarrow> coco \<Rightarrow> error + coco" where
  "reindex_licenses new_ids d =
     (let ks = ids_or_range new_ids (length (licenses d))
      in if length ks \<noteq> length (licenses d) then Inl ValueError
         else err_bind (displace_licenses ks d) (assign_licenses 0 ks))"

text \<open>The other three collections make room and assign in one loop over
  \<open>zip(new_ids, collection)\<close>.\<close>

definition displace_category :: "int \<Rightarrow> coco \<Rightarrow> error + coco" where
  "displace_category k d =
     (if k \<in> set (category_ids d)
      then err_bind (get_category (QInt k) d) (\<lambda>dup.
             case dup of
               None \<Rightarrow> Inr d
             | Some c \<Rightarrow>
                 err_bind (get_new_category_id d) (\<lambda>(fresh, d1).
                   reindex_category (Stored (position (\<lambda>c. c_id c = k) (the_categories d)))
                     (Some fresh) d1))
      else Inr d)"

fun reindex_categories_loop :: "nat \<Rightarrow> int list \<Rightarrow> coco \<Rightarrow> error + coco" where
  "reindex_categories_loop i [] d = Inr d"
| "reindex_categories_loop i (k # ks) d =
     (if i < length (the_categories d)
      then err_bind (displace_category k d) (\<lambda>d1.
           err_bind (reindex_category (Stored i) (Some k) d1) (reindex_categories_loop (Suc i) ks))
      else Inr d)"

definition reindex_categories :: "int list option \<Rightarrow> coco \<Rightarrow> error + coco" where
  "reindex_categories new_ids d =
     (if \<not> has_categories d then Inr d
      else let ks = ids_or_range new_ids (length (the_categories d))
           in if length ks \<noteq> length (the_categories d) then Inl ValueError
              else reindex_categories_loop 0 ks d)"

definition displace_image :: "int \<Rightarrow> coco \<Rightarrow> error + coco" where
  "displace_image k d =
     (if k \<in> set (image_ids d)
      then err_bind (get_image (QInt k) d) (\<lambda>dup.
           err_bind (get_new_image_id d) (\<lambda>(fresh, d1).
             case dup of
               None \<Rightarrow> Inl TypeError
             | Some im \<Rightarrow>
                 reindex_image (Stored (position (\<lambda>im. i_id im = k) (images d))) (Some fresh) d1))
      else Inr d)"

fun reindex_images_loop :: "nat \<Rightarrow> int list \<Rightarrow> coco \<Rightarrow> error + coco" where
  "reindex_images_loop i [] d = Inr d"
| "reindex_images_loop i (k # ks) d =
     (if i < length (images d)
      then err_bind (displace_image k d) (\<lambda>d1.
           err_bind (reindex_image (Stored i) (Some k) d1) (reindex_images_loop (Suc i) ks))
      else Inr d)"

definition reindex_images :: "int list option \<Rightarrow> coco \<Rightarrow> error + coco" where
  "reindex_images new_ids d =
     (let ks = ids_or_range new_ids (length (images d))
      in if length ks \<noteq> length (images d) then Inl ValueError
         else reindex_images_loop 0 ks d)"

text \<open>\<open>get_annotation\<close> returns the first identified annotation with the id, or raises.\<close>

definition displace_annotation :: "int \<Rightarrow> coco \<Rightarrow> error + coco" where
  "displace_annotation k d =
     (if k \<in> set (annotation_ids d)
      then err_bind (get_annotation (QInt k) d) (\<lambda>dup.
           err_bind (get_new_annotation_id d) (\<lambda>(fresh, d1).
             reindex_annotation (Stored (position (\<lambda>a. a_id a = Some k) (annotations d)))
               (Some fresh) d1))
      else Inr d)"

fun reindex_annotations_loop :: "nat \<Rightarrow> int list \<Rightarrow> coco \<Rightarrow> error + coco" where
  "reindex_annotations_loop i [] d = Inr d"
| "reindex_annotations_loop i (k # ks) d =
     (if i < length (annotations d)
      then err_bind (displace_annotation k d) (\<lambda>d1.
           err_bind (reindex_annotation (Stored i) (Some k) d1)
             (reindex_annotations_loop (Suc i) ks))
      else Inr d)"

definition reindex_annotations :: "int list option \<Rightarrow> coco \<Rightarrow> error + coco" where
  "reindex_annotations new_ids d =
     (let ks = ids_or_range new_ids (length (annotations d))
      in if length ks \<noteq> length (annotations d) then Inl ValueError
         else reindex_annotations_loop 0 ks d)"

section \<open>Operations and unique ids\<close>

text \<open>The mutating operations of the dataset, by name and arguments.\<close>

datatype operation =
    AppendLicense license
  | AppendCategory category
  | AppendImage image
  | AppendAnnotation annotation
  | RemoveLicense "license ref" bool bool
  | RemoveCategory "category ref" bool
  | RemoveImage "image ref" bool
  | RemoveAnnotation "annotation ref"
  | ReindexLicense "license ref" "int option"
  | ReindexCategory "category ref" "int option"
  | ReindexImage "image ref" "int option"
  | ReindexAnnotation "annotation ref" "int option"
  | ReindexLicenses "int list option"
  | ReindexCategories "int list option"
  | ReindexImages "int list option"
  | ReindexAnnotations "int list option"

definition unique_ids :: "coco \<Rightarrow> bool" where
  "unique_ids d =
     (distinct (license_ids d) \<and> distinct (category_ids d)
      \<and> distinct (image_ids d) \<and> distinct (annotation_ids d))"

text \<open>
  The condition under which a singular reindex of a stored record keeps ids unique: the
  new id is generated, or no other record of the collection holds it. (The other
  operations carry no condition here.)
\<close>

fun id_free :: "operation \<Rightarrow> coco \<Rightarrow> bool" where
  "id_free (ReindexLicense (Stored i) (Some k)) d =
     (i \<ge> length (licenses d) \<or> k \<notin> set (license_ids d) \<or> l_id (licenses d ! i) = k)"
| "id_free (ReindexCategory (Stored i) (Some k)) d =
     (i \<ge> length (the_categories d) \<or> k \<notin> set (category_ids d) \<or> c_id (the_categories d ! i) = k)"
| "id_free (ReindexImage (Stored i) (Some k)) d =
     (i \<ge> length (images d) \<or> k \<notin> set (image_ids d) \<or> i_id (images d ! i) = k)"
| "id_free (ReindexAnnotation (Stored i) (Some k)) d =
     (i \<ge> length (annotations d) \<or> k \<notin> set (annotation_ids d) \<or> a_id (annotations d ! i) = Some k
      \<or> a_id (annotations d ! i) = None)"
| "id_free ope d = True"

text \<open>A dataset whose only image names a license that does not exist.\<close>

definition dangling_license_coco :: coco where
  "dangling_license_coco = empty_coco\<lparr>
     images := [mk_image 1 ''a.jpg'' 0],
     annotations := [ImageCaptioningAnnotation 1 1 ''a dog'']\<rparr>"

definition no_payload :: detection_payload where
  "no_payload = \<lparr>segmentation = PList [], area = PInt 0, bbox = PList [], iscrowd = PInt 0\<rparr>"

definition detection_coco :: coco where
  "detection_coco = empty_coco\<lparr>
     licenses := [mk_license 1 ''CC-BY''],
     categories := Some [person_category, ObjectDetectionCategory 2 ''dog'' ''animal''],
     images := [mk_image 1 ''a.jpg'' 1, mk_image 2 ''b.jpg'' 1],
     annotations := [ObjectDetectionAnnotation 1 1 1 no_payload,
                     ObjectDetectionAnnotation 2 2 2 no_payload]\<rparr>"

text \<open>Every annotation that names an image names one whose license exists: the condition
  under which one pass of \<open>trim_dataset\<close> is final.\<close>

definition trim_stable :: "coco \<Rightarrow> bool" where
  "trim_stable d =
     (\<forall>a \<in> set (annotations d). image_id a \<in> set (image_ids d) \<longrightarrow>
        (\<exists>im \<in> set (images d). i_id im = image_id a \<and> i_license im \<in> set (license_ids d)))"

text \<open>A keypoint annotation and a keypoint category as mappings.\<close>

definition keypoint_annotation_dict :: "(string \<times> pyval) list" where
  "keypoint_annotation_dict =
     [(''id'', PInt 1), (''image_id'', PInt 1), (''category_id'', PInt 1),
      (''segmentation'', PList []), (''area'', PInt 0), (''bbox'', PList []),
      (''iscrowd'', PInt 0), (''keypoints'', PList [PInt 10, PInt 20, PInt 2]),
      (''num_keypoints'', PInt 1), (''skeleton'', PList [])]"

definition keypoint_category_dict :: "(string \<times> pyval) list" where
  "keypoint_category_dict =
     [(''id'', PInt 1), (''name'', PStr ''person''), (''supercategory'', PStr ''human''),
      (''keypoints'', PList [PStr ''nose'']), (''skeleton'', PList [])]"

text \<open>A shuffle for the examples: on ten elements, the order that CPython 3.11 leaves after
  \<open>random.seed(42); random.shuffle\<close>.\<close>

definition example_shuffle :: "int \<Rightarrow> image list \<Rightarrow> image list" where
  "example_shuffle seed xs =
     (if length xs = 10 then map (\<lambda>i. xs ! i) [7, 3, 2, 8, 5, 6, 9, 4, 0, 1] else xs)"

text \<open>Ten images with the ids 0 to 9 and the given license; a dataset in which that
  license exists, one in which it does not, and one whose only annotation names no image.\<close>

definition ten_images :: "int \<Rightarrow> image list" where
  "ten_images l = map (\<lambda>k. mk_image k ''img.jpg'' l) [0, 1, 2, 3, 4, 5, 6, 7, 8, 9]"

definition ten_images_coco :: coco where
  "ten_images_coco = empty_coco\<lparr>
     licenses := [mk_license 1 ''CC-BY''],
     images := ten_images 1,
     annotations := [ImageCaptioningAnnotation 1 7 ''a dog'', ImageCaptioningAnnotation 2 0 ''a cat'',
                     ImageCaptioningAnnotation 3 7 ''two dogs'']\<rparr>"

definition unlicensed_coco :: coco where
  "unlicensed_coco = empty_coco\<lparr>images := ten_images 0\<rparr>"

definition orphan_annotation_coco :: coco where
  "orphan_annotation_coco = ten_images_coco\<lparr>annotations := [ImageCaptioningAnnotation 1 99 ''a dog'']\<rparr>"

text \<open>Two licenses with the ids 1 and 2, and one image of each.\<close>

definition two_licenses_coco :: coco where
  "two_licenses_coco = empty_coco\<lparr>
     licenses := [mk_license 1 ''CC-BY'', mk_license 2 ''MIT''],
     images := [mk_image 1 ''a.jpg'' 1, mk_image 2 ''b.jpg'' 2]\<rparr>"

section \<open>Properties of the identifier allocator\<close>

lemma py_max_Max: "xs \<noteq> [] \<Longrightarrow> py_max xs = Inr (Max (set xs))"
  by (cases xs) (simp_all add: Max.set_eq_fold del: set_simps)

lemma py_max_Nil_iff: "py_max xs = Inl ValueError \<longleftrightarrow> xs = []"
  by (cases xs) simp_all

lemma generate_new_id_nonempty:
  "p @ c \<noteq> [] \<Longrightarrow>
   generate_new_id p c = Inr (Max (set p \<union> set c) + 1, c @ [Max (set p \<union> set c) + 1])"
  unfolding generate_new_id_def using py_max_Max [of "p @ c"] by simp

lemma generate_new_id_empty: "generate_new_id [] [] = Inl ValueError"
  by (simp add: generate_new_id_def)

lemma present_ids_reserve [simp]: "present_ids_of c (reserve c' k d) = present_ids_of c d"
  by (cases c; cases c')
     (simp_all add: license_ids_def category_ids_def image_ids_def annotation_ids_def
        has_categories_def the_categories_def)

lemma cached_ids_reserve_same [simp]: "cached_ids_of c (reserve c k d) = cached_ids_of c d @ [k]"
  by (cases c) simp_all

lemma get_new_id_nonempty:
  assumes "present_ids_of c d @ cached_ids_of c d \<noteq> []"
  shows "get_new_id c d = Inr (max_id c d + 1, reserve c (max_id c d + 1) d)"
  using assms
  by (cases c)
     (simp_all add: get_new_license_id_def get_new_category_id_def get_new_image_id_def
        get_new_annotation_id_def generate_new_id_nonempty max_id_def)

lemma max_id_reserve:
  assumes "present_ids_of c d @ cached_ids_of c d \<noteq> []"
  shows "max_id c (reserve c (max_id c d + 1) d) = max_id c d + 1"
proof -
  let ?S = "set (present_ids_of c d) \<union> set (cached_ids_of c d)"
  have fin: "finite ?S" and ne: "?S \<noteq> {}" using assms by auto
  have "max_id c (reserve c (max_id c d + 1) d) = Max (insert (Max ?S + 1) ?S)"
    by (simp add: max_id_def Un_commute insert_commute Un_insert_right)
  also have "\<dots> = max (Max ?S + 1) (Max ?S)"
    using fin ne by (rule Max_insert)
  finally show ?thesis by (simp add: max_id_def)
qed

lemma get_new_ids_nonempty:
  "present_ids_of c d @ cached_ids_of c d \<noteq> [] \<Longrightarrow>
   \<exists>d'. get_new_ids c n d = Inr (map (\<lambda>i. max_id c d + 1 + int i) [0..<n], d')"
proof (induction n arbitrary: d)
  case 0
  then show ?case by simp
next
  case (Suc n)
  let ?k = "max_id c d + 1"
  let ?d1 = "reserve c ?k d"
  have step: "get_new_id c d = Inr (?k, ?d1)" using Suc.prems by (rule get_new_id_nonempty)
  have ne1: "present_ids_of c ?d1 @ cached_ids_of c ?d1 \<noteq> []" by simp
  have m1: "max_id c ?d1 = ?k" using Suc.prems by (rule max_id_reserve)
  from Suc.IH [OF ne1] obtain d' where
    rest: "get_new_ids c n ?d1 = Inr (map (\<lambda>i. ?k + 1 + int i) [0..<n], d')"
    unfolding m1 by blast
  have "map (\<lambda>i. max_id c d + 1 + int i) [0..<Suc n] =
        ?k # map (\<lambda>i. ?k + 1 + int i) [0..<n]"
    by (simp add: upt_conv_Cons map_Suc_upt [symmetric] del: upt_Suc)
  with step rest show ?case by simp
qed

text \<open>
  C8: for every collection of every dataset whose committed and reserved ids are not both
  empty, the next-id operation returns the maximum of the committed and reserved ids plus
  one and appends it to the reservation buffer of that collection; hence any number \<open>n\<close>
  of consecutive calls, nothing committed in between, succeeds and returns \<open>n\<close> pairwise
  distinct ids, none of them committed or reserved before. (Three calls of
  \<open>get_new_image_id\<close> are the case \<open>c = Images\<close>, \<open>n = 3\<close>.)
\<close>

theorem next_id_max_plus_one:
  assumes "present_ids_of c d @ cached_ids_of c d \<noteq> []"
  shows "get_new_id c d = Inr (max_id c d + 1, reserve c (max_id c d + 1) d)
       \<and> (\<forall>n. \<exists>ks d'. get_new_ids c n d = Inr (ks, d') \<and> length ks = n \<and> distinct ks
              \<and> set ks \<inter> (set (present_ids_of c d) \<union> set (cached_ids_of c d)) = {})"
proof (intro conjI allI)
  show "get_new_id c d = Inr (max_id c d + 1, reserve c (max_id c d + 1) d)"
    using assms by (rule get_new_id_nonempty)
next
  fix n
  let ?S = "set (present_ids_of c d) \<union> set (cached_ids_of c d)"
  let ?ks = "map (\<lambda>i. max_id c d + 1 + int i) [0..<n]"
  from get_new_ids_nonempty [OF assms, of n] obtain d' where
    run: "get_new_ids c n d = Inr (?ks, d')" by blast
  have "distinct ?ks" by (simp add: distinct_map inj_on_def)
  moreover have "set ?ks \<inter> ?S = {}"
  proof -
    have "\<And>x. x \<in> ?S \<Longrightarrow> x \<le> max_id c d" unfolding max_id_def by (rule Max_ge) auto
    then show ?thesis by fastforce
  qed
  ultimately show "\<exists>ks d'. get_new_ids c n d = Inr (ks, d') \<and> length ks = n \<and> distinct ks
      \<and> set ks \<inter> ?S = {}"
    using run by auto
qed

theorem next_id_max_plus_one_witness:
  "present_ids_of Images one_image_coco @ cached_ids_of Images one_image_coco \<noteq> []
   \<and> get_new_id Images one_image_coco = Inr (8, reserve Images 8 one_image_coco)
   \<and> (\<exists>ks d'. get_new_ids Images 3 one_image_coco = Inr (ks, d') \<and> length ks = 3 \<and> distinct ks)"
proof -
  have ne: "present_ids_of Images one_image_coco @ cached_ids_of Images one_image_coco \<noteq> []"
    by (simp add: one_image_coco_def empty_coco_def image_ids_def)
  have m: "max_id Images one_image_coco = 7"
    by (simp add: max_id_def one_image_coco_def empty_coco_def image_ids_def mk_image_def)
  note inst = next_id_max_plus_one [OF ne, unfolded m]
  from inst have one: "get_new_id Images one_image_coco = Inr (8, reserve Images 8 one_image_coco)"
    by simp
  from inst have "\<exists>ks d'. get_new_ids Images 3 one_image_coco = Inr (ks, d') \<and> length ks = 3
      \<and> distinct ks \<and> set ks \<inter> (set (present_ids_of Images one_image_coco)
          \<union> set (cached_ids_of Images one_image_coco)) = {}"
    by blast
  then have three: "\<exists>ks d'. get_new_ids Images 3 one_image_coco = Inr (ks, d') \<and> length ks = 3
      \<and> distinct ks"
    by blast
  from ne one three show ?thesis by blast
qed

text \<open>
  C10: for every collection of every dataset, when the collection holds no id and its
  reservation buffer is empty the next-id operation returns no id: it raises
  \<open>ValueError\<close>, the maximum of an empty list being taken. The witness reaches the
  branch through \<open>get_new_license_id\<close> on a dataset without licenses.
\<close>

theorem next_id_empty_raises:
  assumes "present_ids_of c d = []" and "cached_ids_of c d = []"
  shows "get_new_id c d = Inl ValueError"
  using assms
  by (cases c)
     (simp_all add: get_new_license_id_def get_new_category_id_def get_new_image_id_def
        get_new_annotation_id_def generate_new_id_empty)

theorem next_id_empty_raises_witness:
  "present_ids_of Licenses empty_coco = [] \<and> cached_ids_of Licenses empty_coco = []
   \<and> get_new_license_id empty_coco = Inl ValueError"
proof -
  have a: "present_ids_of Licenses empty_coco = []" by (simp add: empty_coco_def license_ids_def)
  have b: "cached_ids_of Licenses empty_coco = []" by (simp add: empty_coco_def)
  from next_id_empty_raises [OF a b] a b show ?thesis by simp
qed

section \<open>Properties of the query layer\<close>

lemma err_bind_simps [simp]:
  "err_bind (Inl e) f = Inl e"
  "err_bind (Inr x) f = f x"
  by (simp_all add: err_bind_def)

lemma py_next_found:
  assumes "\<exists>x \<in> set xs. P x"
  shows "\<exists>x. py_next P xs = Inr x \<and> x \<in> set xs \<and> P x"
proof -
  from assms obtain x where f: "find P xs = Some x"
    by (cases "find P xs") (auto simp: find_None_iff)
  then have "x \<in> set xs" and "P x"
    by (auto simp: find_Some_iff)
  with f show ?thesis
    unfolding py_next_def by simp
qed

lemma py_next_none: "\<not> (\<exists>x \<in> set xs. P x) \<Longrightarrow> py_next P xs = Inl StopIteration"
  unfolding py_next_def by (simp add: find_None_iff split: option.split)

text \<open>
  C7: for every dataset and every key, an id that no license (category, image) holds and
  a name that no license (category, image) carries make \<open>get_license\<close>,
  \<open>get_category\<close> and \<open>get_image\<close> return \<open>None\<close> without raising, whereas an
  id that no identified annotation holds makes \<open>get_annotation\<close> raise
  \<open>TypeError\<close>.
\<close>

theorem singular_lookups_absent:
  "(k \<notin> set (license_ids d) \<longrightarrow> get_license (QInt k) d = Inr None)
 \<and> (s \<notin> set (license_names d) \<longrightarrow> get_license (QStr s) d = Inr None)
 \<and> (k \<notin> set (category_ids d) \<longrightarrow> get_category (QInt k) d = Inr None)
 \<and> (s \<notin> set (category_names d) \<longrightarrow> get_category (QStr s) d = Inr None)
 \<and> (k \<notin> set (image_ids d) \<longrightarrow> get_image (QInt k) d = Inr None)
 \<and> (s \<notin> set (image_file_names d) \<longrightarrow> get_image (QStr s) d = Inr None)
 \<and> (k \<notin> set (annotation_ids d) \<longrightarrow> get_annotation (QInt k) d = Inl TypeError)"
  by simp

lemma captions_ids:
  "license_ids captions_coco = [1]" "license_names captions_coco = [''CC-BY'']"
  "category_ids captions_coco = []" "category_names captions_coco = []"
  "image_ids captions_coco = [1, 2]" "image_file_names captions_coco = [''a.jpg'', ''b.jpg'']"
  "annotation_ids captions_coco = [1, 2]"
  by (simp_all add: captions_coco_def empty_coco_def license_ids_def license_names_def
      category_ids_def category_names_def image_ids_def image_file_names_def annotation_ids_def
      has_categories_def mk_license_def mk_image_def is_Indexed_def)

theorem singular_lookups_absent_witness:
  "(9 \<notin> set (license_ids captions_coco) \<and> get_license (QInt 9) captions_coco = Inr None)
 \<and> (''none'' \<notin> set (license_names captions_coco) \<and> get_license (QStr ''none'') captions_coco = Inr None)
 \<and> (9 \<notin> set (category_ids captions_coco) \<and> get_category (QInt 9) captions_coco = Inr None)
 \<and> (''none'' \<notin> set (category_names captions_coco) \<and> get_category (QStr ''none'') captions_coco = Inr None)
 \<and> (9 \<notin> set (image_ids captions_coco) \<and> get_image (QInt 9) captions_coco = Inr None)
 \<and> (''none'' \<notin> set (image_file_names captions_coco) \<and> get_image (QStr ''none'') captions_coco = Inr None)
 \<and> (9 \<notin> set (annotation_ids captions_coco) \<and> get_annotation (QInt 9) captions_coco = Inl TypeError)"
  using singular_lookups_absent [of 9 captions_coco "''none''"]
  by (simp only: captions_ids) simp

text \<open>Without categories the three category queries return the empty or absent result,
  whatever the input.\<close>

lemma no_categories_queries:
  assumes "categories d = None"
  shows "get_categories q d = Inr []" and "get_category q d = Inr None"
    and "get_annotations_by_category q d = Inr []"
  using assms by (simp_all add: has_categories_def)

text \<open>
  C4: on a dataset whose categories are absent every category-related query should
  return an empty or absent result and never raise. \<open>get_images\<close> does not: on the
  caption-only dataset \<open>captions_coco\<close>, called with a category or with a list holding
  a category, it raises \<open>TypeError\<close>, because the branches for categories are guarded
  by \<open>self.categories\<close> and the call falls through to the final \<open>raise\<close>.
\<close>

theorem get_images_category_absent_raises:
  "categories captions_coco = None
   \<and> get_images (QCategory person_category) captions_coco = Inl TypeError
   \<and> get_images (QList [QCategory person_category]) captions_coco = Inl TypeError"
  by (simp add: captions_coco_def empty_coco_def has_categories_def isinstances_def)

section \<open>Properties of removal\<close>

text \<open>
  C5 as stated fails: a license object that the caller built, equal in its fields to the
  stored license but not the stored object, is removed from the dataset (and with the
  default cascade its images and their annotations go too).
\<close>

theorem remove_value_equal_counterexample:
  "\<not> present_by_identity (licenses captions_coco) (Foreign (mk_license 1 ''CC-BY''))
   \<and> remove_license (Foreign (mk_license 1 ''CC-BY'')) True True captions_coco
       = Inr (captions_coco\<lparr>licenses := [], images := [], annotations := []\<rparr>)
   \<and> remove_license (Foreign (mk_license 1 ''CC-BY'')) True True captions_coco
       \<noteq> Inr captions_coco"
  by (simp add: captions_coco_def empty_coco_def remove_license_def remove_image_def
      remove_annotaitons_def remove_annotation_def mk_license_def mk_image_def)

text \<open>What the cascades leave alone.\<close>

lemma remove_annotation_fields [simp]:
  "licenses (remove_annotation r d) = licenses d" "images (remove_annotation r d) = images d"
  "categories (remove_annotation r d) = categories d"
  by (simp_all add: remove_annotation_def split: option.splits)

lemma remove_annotaitons_fields [simp]:
  "licenses (remove_annotaitons as d) = licenses d" "images (remove_annotaitons as d) = images d"
  "categories (remove_annotaitons as d) = categories d"
  unfolding remove_annotaitons_def by (induction as arbitrary: d) simp_all

lemma remove_image_fields:
  assumes "remove_image r g d = Inr d'"
  shows "licenses d' = licenses d" "categories d' = categories d"
  using assms unfolding remove_image_def Let_def
  by (auto split: option.splits if_splits)

lemma remove_images_fields:
  "remove_images ims g d = Inr d' \<Longrightarrow> licenses d' = licenses d \<and> categories d' = categories d"
proof (induction ims arbitrary: d)
  case Nil
  then show ?case by simp
next
  case (Cons im ims)
  from Cons.prems obtain d1 where
    1: "remove_image (Foreign im) g d = Inr d1" and 2: "remove_images ims g d1 = Inr d'"
    by (cases "remove_image (Foreign im) g d") auto
  from Cons.IH [OF 2] remove_image_fields [OF 1] show ?case by simp
qed

lemma remove_images_returns: "\<exists>d'. remove_images ims g d = Inr d'"
proof (induction ims arbitrary: d)
  case Nil
  then show ?case by simp
next
  case (Cons im ims)
  have "\<exists>d1. remove_image (Foreign im) g d = Inr d1"
    unfolding remove_image_def Let_def by (auto split: option.splits)
  then obtain d1 where "remove_image (Foreign im) g d = Inr d1" ..
  with Cons show ?case by simp
qed

lemma remove_license_stored:
  assumes "l \<in> set (licenses d)"
  shows "\<exists>d'. remove_license (Foreign l) f g d = Inr d' \<and> licenses d' = remove1 l (licenses d)"
proof (cases f)
  case False
  with assms show ?thesis by (simp add: remove_license_def)
next
  case True
  let ?d1 = "d\<lparr>licenses := remove1 l (licenses d)\<rparr>"
  let ?ims = "filter (\<lambda>im. i_license im = l_id l) (images ?d1)"
  from remove_images_returns obtain d' where r: "remove_images ?ims g ?d1 = Inr d'" ..
  from remove_images_fields [OF r] have "licenses d' = remove1 l (licenses d)" by simp
  with r assms True show ?thesis by (simp add: remove_license_def)
qed

lemma remove_image_stored:
  assumes "im \<in> set (images d)"
  shows "\<exists>d'. remove_image (Foreign im) g d = Inr d' \<and> images d' = remove1 im (images d)"
  using assms by (simp add: remove_image_def Let_def)

lemma remove_category_stored:
  assumes "c \<in> set (the_categories d)"
  shows "\<exists>d'. remove_category (Foreign c) g d = Inr d'
           \<and> categories d' = Some (remove1 c (the_categories d))"
proof -
  from assms have "has_categories d"
    by (cases "categories d") (auto simp: has_categories_def the_categories_def)
  with assms show ?thesis
    unfolding remove_category_def Let_def by (auto simp: has_categories_def)
qed

text \<open>
  C5, amended: for every record whose field values equal those of no record stored in
  its collection, \<open>remove_license\<close>, \<open>remove_category\<close>, \<open>remove_image\<close> and
  \<open>remove_annotation\<close> leave the dataset unchanged; presence is judged by equality of
  field values, not by object identity, so removing a caller-held record equal to a
  stored one removes, whatever the cascade flags, the first stored record equal to it.
\<close>

theorem remove_absent_value_noop:
  "(value_of (licenses d) r1 = Some l \<and> l \<notin> set (licenses d)
      \<longrightarrow> remove_license r1 f1 f2 d = Inr d)
 \<and> (value_of (the_categories d) r2 = Some c \<and> c \<notin> set (the_categories d)
      \<longrightarrow> remove_category r2 f2 d = Inr d)
 \<and> (value_of (images d) r3 = Some im \<and> im \<notin> set (images d)
      \<longrightarrow> remove_image r3 f2 d = Inr d)
 \<and> (value_of (annotations d) r4 = Some a \<and> a \<notin> set (annotations d)
      \<longrightarrow> remove_annotation r4 d = d)
 \<and> (l' \<in> set (licenses d)
      \<longrightarrow> (\<exists>d'. remove_license (Foreign l') f1 f2 d = Inr d'
             \<and> licenses d' = remove1 l' (licenses d)))
 \<and> (c' \<in> set (the_categories d)
      \<longrightarrow> (\<exists>d'. remove_category (Foreign c') f2 d = Inr d'
             \<and> categories d' = Some (remove1 c' (the_categories d))))
 \<and> (im' \<in> set (images d)
      \<longrightarrow> (\<exists>d'. remove_image (Foreign im') f2 d = Inr d'
             \<and> images d' = remove1 im' (images d)))
 \<and> (a' \<in> set (annotations d)
      \<longrightarrow> remove_annotation (Foreign a') d = d\<lparr>annotations := remove1 a' (annotations d)\<rparr>)"
proof (intro conjI impI)
  show "l' \<in> set (licenses d) \<Longrightarrow> \<exists>d'. remove_license (Foreign l') f1 f2 d = Inr d'
             \<and> licenses d' = remove1 l' (licenses d)"
    by (rule remove_license_stored)
  show "c' \<in> set (the_categories d) \<Longrightarrow> \<exists>d'. remove_category (Foreign c') f2 d = Inr d'
             \<and> categories d' = Some (remove1 c' (the_categories d))"
    by (rule remove_category_stored)
  show "im' \<in> set (images d) \<Longrightarrow> \<exists>d'. remove_image (Foreign im') f2 d = Inr d'
             \<and> images d' = remove1 im' (images d)"
    by (rule remove_image_stored)
qed (auto simp: remove_license_def remove_category_def remove_image_def remove_annotation_def)

lemma detection_coco_fields:
  "licenses detection_coco = [mk_license 1 ''CC-BY'']"
  "the_categories detection_coco = [person_category, ObjectDetectionCategory 2 ''dog'' ''animal'']"
  "images detection_coco = [mk_image 1 ''a.jpg'' 1, mk_image 2 ''b.jpg'' 1]"
  "annotations detection_coco =
     [ObjectDetectionAnnotation 1 1 1 no_payload, ObjectDetectionAnnotation 2 2 2 no_payload]"
  by (simp_all add: detection_coco_def empty_coco_def the_categories_def)

theorem remove_absent_value_noop_witness:
  "(value_of (licenses detection_coco) (Foreign (mk_license 2 ''MIT'')) = Some (mk_license 2 ''MIT'')
      \<and> mk_license 2 ''MIT'' \<notin> set (licenses detection_coco)
      \<and> remove_license (Foreign (mk_license 2 ''MIT'')) True True detection_coco = Inr detection_coco)
 \<and> (value_of (the_categories detection_coco) (Foreign (ObjectDetectionCategory 3 ''cat'' ''animal''))
        = Some (ObjectDetectionCategory 3 ''cat'' ''animal'')
      \<and> ObjectDetectionCategory 3 ''cat'' ''animal'' \<notin> set (the_categories detection_coco)
      \<and> remove_category (Foreign (ObjectDetectionCategory 3 ''cat'' ''animal'')) True detection_coco
          = Inr detection_coco)
 \<and> (value_of (images detection_coco) (Foreign (mk_image 3 ''c.jpg'' 1)) = Some (mk_image 3 ''c.jpg'' 1)
      \<and> mk_image 3 ''c.jpg'' 1 \<notin> set (images detection_coco)
      \<and> remove_image (Foreign (mk_image 3 ''c.jpg'' 1)) True detection_coco = Inr detection_coco)
 \<and> (value_of (annotations detection_coco) (Foreign (ImageCaptioningAnnotation 1 1 ''a dog''))
        = Some (ImageCaptioningAnnotation 1 1 ''a dog'')
      \<and> ImageCaptioningAnnotation 1 1 ''a dog'' \<notin> set (annotations detection_coco)
      \<and> remove_annotation (Foreign (ImageCaptioningAnnotation 1 1 ''a dog'')) detection_coco
          = detection_coco)
 \<and> (mk_license 1 ''CC-BY'' \<in> set (licenses detection_coco)
      \<and> (\<exists>d'. remove_license (Foreign (mk_license 1 ''CC-BY'')) True True detection_coco = Inr d'
            \<and> licenses d' = []))
 \<and> (person_category \<in> set (the_categories detection_coco)
      \<and> (\<exists>d'. remove_category (Foreign person_category) True detection_coco = Inr d'
            \<and> categories d' = Some [ObjectDetectionCategory 2 ''dog'' ''animal'']))
 \<and> (mk_image 1 ''a.jpg'' 1 \<in> set (images detection_coco)
      \<and> (\<exists>d'. remove_image (Foreign (mk_image 1 ''a.jpg'' 1)) True detection_coco = Inr d'
            \<and> images d' = [mk_image 2 ''b.jpg'' 1]))
 \<and> (ObjectDetectionAnnotation 1 1 1 no_payload \<in> set (annotations detection_coco)
      \<and> remove_annotation (Foreign (ObjectDetectionAnnotation 1 1 1 no_payload)) detection_coco
          = detection_coco\<lparr>annotations := [ObjectDetectionAnnotation 2 2 2 no_payload]\<rparr>)"
  using remove_absent_value_noop [of detection_coco "Foreign (mk_license 2 ''MIT'')"
      "mk_license 2 ''MIT''" True True "Foreign (ObjectDetectionCategory 3 ''cat'' ''animal'')"
      "ObjectDetectionCategory 3 ''cat'' ''animal''" "Foreign (mk_image 3 ''c.jpg'' 1)"
      "mk_image 3 ''c.jpg'' 1" "Foreign (ImageCaptioningAnnotation 1 1 ''a dog'')"
      "ImageCaptioningAnnotation 1 1 ''a dog''" "mk_license 1 ''CC-BY''" person_category
      "mk_image 1 ''a.jpg'' 1" "ObjectDetectionAnnotation 1 1 1 no_payload"]
  by (simp add: detection_coco_fields mk_license_def mk_image_def person_category_def)

section \<open>Properties of trimming\<close>

lemma trim_annotations_fields [simp]:
  "annotations (trim_annotations d) = filter (\<lambda>a. image_id a \<in> set (image_ids d)) (annotations d)"
  "images (trim_annotations d) = images d" "licenses (trim_annotations d) = licenses d"
  "categories (trim_annotations d) = categories d" "info (trim_annotations d) = info d"
  "cached_license_ids (trim_annotations d) = cached_license_ids d"
  "cached_image_ids (trim_annotations d) = cached_image_ids d"
  "cached_category_ids (trim_annotations d) = cached_category_ids d"
  "cached_annotation_ids (trim_annotations d) = cached_annotation_ids d"
  by (simp_all add: trim_annotations_def)

lemma trim_images_fields [simp]:
  "images (trim_images d) =
     filter (\<lambda>im. i_id im \<in> set (map image_id (annotations d)) \<and> i_license im \<in> set (license_ids d))
       (images d)"
  "annotations (trim_images d) = annotations d" "licenses (trim_images d) = licenses d"
  "categories (trim_images d) = categories d" "info (trim_images d) = info d"
  "cached_license_ids (trim_images d) = cached_license_ids d"
  "cached_image_ids (trim_images d) = cached_image_ids d"
  "cached_category_ids (trim_images d) = cached_category_ids d"
  "cached_annotation_ids (trim_images d) = cached_annotation_ids d"
  by (simp_all add: trim_images_def)

lemma trim_categories_fields [simp]:
  "categories (trim_categories d) =
     (if has_categories d \<and> isinstances (annotations d) is_Categorized
      then Some (filter (\<lambda>c. c_id c \<in> set (map (\<lambda>a. the (category_id a)) (annotations d)))
                   (the_categories d))
      else categories d)"
  "annotations (trim_categories d) = annotations d" "licenses (trim_categories d) = licenses d"
  "images (trim_categories d) = images d" "info (trim_categories d) = info d"
  "cached_license_ids (trim_categories d) = cached_license_ids d"
  "cached_image_ids (trim_categories d) = cached_image_ids d"
  "cached_category_ids (trim_categories d) = cached_category_ids d"
  "cached_annotation_ids (trim_categories d) = cached_annotation_ids d"
  by (simp_all add: trim_categories_def)

lemma trim_licenses_fields [simp]:
  "licenses (trim_licenses d) =
     filter (\<lambda>l. l_id l \<in> set (map i_license (images d))) (licenses d)"
  "annotations (trim_licenses d) = annotations d" "categories (trim_licenses d) = categories d"
  "images (trim_licenses d) = images d" "info (trim_licenses d) = info d"
  "cached_license_ids (trim_licenses d) = cached_license_ids d"
  "cached_image_ids (trim_licenses d) = cached_image_ids d"
  "cached_category_ids (trim_licenses d) = cached_category_ids d"
  "cached_annotation_ids (trim_licenses d) = cached_annotation_ids d"
  by (simp_all add: trim_licenses_def)

lemma license_ids_cong: "licenses d = licenses d' \<Longrightarrow> license_ids d = license_ids d'"
  by (simp add: license_ids_def)

lemma image_ids_cong: "images d = images d' \<Longrightarrow> image_ids d = image_ids d'"
  by (simp add: image_ids_def)

lemma has_categories_cong: "categories d = categories d' \<Longrightarrow> has_categories d = has_categories d'"
  by (simp add: has_categories_def)

lemma the_categories_cong: "categories d = categories d' \<Longrightarrow> the_categories d = the_categories d'"
  by (simp add: the_categories_def)

text \<open>The annotations and images that one pass of \<open>trim_dataset\<close> keeps.\<close>

lemma trim_dataset_annotations:
  "annotations (trim_dataset d) = filter (\<lambda>a. image_id a \<in> set (image_ids d)) (annotations d)"
  by (simp add: trim_dataset_def)

lemma trim_dataset_images:
  "images (trim_dataset d) =
     filter (\<lambda>im. i_id im \<in> image_id ` set (annotations (trim_dataset d))
                  \<and> i_license im \<in> set (license_ids d)) (images d)"
  by (simp add: trim_dataset_def license_ids_def)

lemma trim_dataset_licenses:
  "licenses (trim_dataset d) =
     filter (\<lambda>l. l_id l \<in> i_license ` set (images (trim_dataset d))) (licenses d)"
  by (simp add: trim_dataset_def)

lemma trim_dataset_categories:
  "categories (trim_dataset d) =
     (if has_categories d \<and> isinstances (annotations (trim_dataset d)) is_Categorized
      then Some (filter (\<lambda>c. c_id c \<in> (\<lambda>a. the (category_id a)) ` set (annotations (trim_dataset d)))
                   (the_categories d))
      else categories d)"
  by (simp add: trim_dataset_def has_categories_def the_categories_def)

lemma trim_dataset_rest:
  "info (trim_dataset d) = info d"
  "cached_license_ids (trim_dataset d) = cached_license_ids d"
  "cached_image_ids (trim_dataset d) = cached_image_ids d"
  "cached_category_ids (trim_dataset d) = cached_category_ids d"
  "cached_annotation_ids (trim_dataset d) = cached_annotation_ids d"
  by (simp_all add: trim_dataset_def)

lemma trim_stable_iff_annotations:
  "trim_stable d \<longleftrightarrow>
   (\<forall>a \<in> set (annotations (trim_dataset d)). image_id a \<in> set (image_ids (trim_dataset d)))"
proof -
  have ids: "set (image_ids (trim_dataset d)) =
      {k. \<exists>im \<in> set (images d). i_id im = k \<and> k \<in> image_id ` set (annotations (trim_dataset d))
          \<and> i_license im \<in> set (license_ids d)}"
    unfolding image_ids_def trim_dataset_images by auto
  show ?thesis
    unfolding trim_stable_def ids unfolding trim_dataset_annotations
    by (auto simp: image_iff)
qed

lemma trim_twice_annotations:
  "annotations (trim_dataset (trim_dataset d)) = annotations (trim_dataset d) \<longleftrightarrow> trim_stable d"
  unfolding trim_stable_iff_annotations
  by (subst trim_dataset_annotations [of "trim_dataset d"]) (simp add: filter_id_conv)

lemma trim_twice_images:
  assumes "trim_stable d"
  shows "images (trim_dataset (trim_dataset d)) = images (trim_dataset d)"
proof -
  let ?t = "trim_dataset d"
  have A: "annotations (trim_dataset ?t) = annotations ?t"
    using assms by (simp add: trim_twice_annotations)
  have "\<forall>im \<in> set (images ?t). i_id im \<in> image_id ` set (annotations ?t)
          \<and> i_license im \<in> set (license_ids ?t)"
  proof
    fix im assume im: "im \<in> set (images ?t)"
    then have 1: "i_id im \<in> image_id ` set (annotations ?t)"
      and 2: "i_license im \<in> set (license_ids d)"
      unfolding trim_dataset_images [of d] by auto
    from 2 obtain l where l: "l \<in> set (licenses d)" "l_id l = i_license im"
      by (auto simp: license_ids_def)
    with im have "l \<in> set (licenses ?t)"
      unfolding trim_dataset_licenses [of d] by (auto simp: image_iff)
    with l(2) have "i_license im \<in> set (license_ids ?t)"
      unfolding license_ids_def by (metis image_eqI set_map)
    with 1 show "i_id im \<in> image_id ` set (annotations ?t) \<and> i_license im \<in> set (license_ids ?t)"
      by simp
  qed
  then show ?thesis
    by (subst trim_dataset_images [of ?t]) (simp add: A filter_id_conv)
qed

lemma trim_twice_licenses:
  assumes "trim_stable d"
  shows "licenses (trim_dataset (trim_dataset d)) = licenses (trim_dataset d)"
  by (subst trim_dataset_licenses [of "trim_dataset d"])
     (simp add: trim_twice_images [OF assms] filter_id_conv trim_dataset_licenses [of d])

lemma trim_twice_categories:
  assumes "trim_stable d"
  shows "categories (trim_dataset (trim_dataset d)) = categories (trim_dataset d)"
proof -
  let ?t = "trim_dataset d"
  have A: "annotations (trim_dataset ?t) = annotations ?t"
    using assms by (simp add: trim_twice_annotations)
  show ?thesis
    by (subst trim_dataset_categories [of ?t], subst A, subst A)
       (auto simp: trim_dataset_categories [of d] has_categories_def the_categories_def
          filter_id_conv split: option.splits)
qed

text \<open>The datasets on which a second pass of \<open>trim_dataset\<close> changes nothing are those
  in which every annotation of an image has such an image with a license that exists.\<close>

lemma trim_dataset_idempotent_iff:
  "trim_dataset (trim_dataset d) = trim_dataset d \<longleftrightarrow> trim_stable d"
proof
  assume "trim_dataset (trim_dataset d) = trim_dataset d"
  then have "annotations (trim_dataset (trim_dataset d)) = annotations (trim_dataset d)"
    by simp
  then show "trim_stable d" by (simp add: trim_twice_annotations)
next
  assume st: "trim_stable d"
  show "trim_dataset (trim_dataset d) = trim_dataset d"
  proof (rule coco.equality)
    show "annotations (trim_dataset (trim_dataset d)) = annotations (trim_dataset d)"
      using st by (simp add: trim_twice_annotations)
    show "images (trim_dataset (trim_dataset d)) = images (trim_dataset d)"
      using st by (rule trim_twice_images)
    show "licenses (trim_dataset (trim_dataset d)) = licenses (trim_dataset d)"
      using st by (rule trim_twice_licenses)
    show "categories (trim_dataset (trim_dataset d)) = categories (trim_dataset d)"
      using st by (rule trim_twice_categories)
  qed (simp_all add: trim_dataset_rest)
qed

text \<open>
  C6: \<open>trim_dataset\<close> applied twice should give what one application gives. It does
  not: on a dataset with one image whose license does not exist and one annotation of
  that image, the first pass keeps the annotation (its image is still there when
  \<open>trim_annotations\<close> runs) and then removes the image for its dangling license, so
  the result holds an annotation of no image; the second pass removes that annotation.
\<close>

theorem trim_dataset_twice_differs:
  "trim_dataset dangling_license_coco = dangling_license_coco\<lparr>images := []\<rparr>
   \<and> annotations (trim_dataset dangling_license_coco) = [ImageCaptioningAnnotation 1 1 ''a dog'']
   \<and> image_ids (trim_dataset dangling_license_coco) = []
   \<and> trim_dataset (trim_dataset dangling_license_coco)
       = dangling_license_coco\<lparr>images := [], annotations := []\<rparr>
   \<and> trim_dataset (trim_dataset dangling_license_coco) \<noteq> trim_dataset dangling_license_coco"
  by (simp add: dangling_license_coco_def empty_coco_def trim_dataset_def trim_licenses_def
      trim_categories_def trim_images_def trim_annotations_def image_ids_def license_ids_def
      has_categories_def mk_image_def)

section \<open>Properties of the boundary functions\<close>

lemma to_dict_raises: "to_dict d = Inl ValueError"
  by (simp add: to_dict_def asdict_def keys_def)

text \<open>Whatever \<open>to_dict\<close> did, a mapping without the key \<open>categories\<close> is not accepted
  by \<open>from_dict\<close>: \<open>categories\<close> is a field of the dataclass, and
  \<open>compare_dict_structure\<close> asks for every field.\<close>

lemma from_dict_needs_categories:
  "''categories'' \<notin> set (keys m) \<Longrightarrow> from_dict (PDict m) b = Inl ValueError"
  by (simp add: from_dict_def COCO_fields_def)

text \<open>
  C1: the boundary functions should round-trip every dataset. They do not:
  \<open>to_dict\<close> raises \<open>ValueError\<close> on every dataset, since its comprehension
  iterates the keys of \<open>asdict(self)\<close> (the \<open>.items()\<close> is missing) and the first
  key, \<open>info\<close>, does not unpack into two targets; so the round trip returns no
  dataset at all.
\<close>

theorem round_trip_raises:
  "to_dict d = Inl ValueError \<and> round_trip d = Inl ValueError"
  by (simp add: round_trip_def to_dict_raises)

text \<open>The true part of C3: a mapping that has the key set of no variant is rejected with
  \<open>ValueError\<close>.\<close>

lemma dict_to_annotation_no_shape:
  assumes "\<not> issubset (DICT_TO_ANNOTATION_MAP ''object_detection'') m"
    and "\<not> issubset (DICT_TO_ANNOTATION_MAP ''keypoint_detection'') m"
    and "\<not> issubset (DICT_TO_ANNOTATION_MAP ''panoptic_segmentation'') m"
    and "\<not> issubset (DICT_TO_ANNOTATION_MAP ''image_captioning'') m"
    and "\<not> issubset (DICT_TO_ANNOTATION_MAP ''dense_pose'') m"
  shows "dict_to_annotation (PDict m) b = Inl ValueError"
  using assms by simp

lemma dict_to_category_no_shape:
  assumes "\<not> issubset (DICT_TO_CATEGORY_MAP ''object_detection'') m"
  shows "dict_to_category (PDict m) b = Inl ValueError"
proof -
  have "\<not> issubset (DICT_TO_CATEGORY_MAP ''keypoint_detection'') m"
    and "\<not> issubset (DICT_TO_CATEGORY_MAP ''panoptic_segmentation'') m"
    using assms by (auto simp: issubset_def DICT_TO_CATEGORY_MAP_def)
  with assms show ?thesis by simp
qed

lemma err_bind_eq_Inr: "err_bind r f = Inr y \<longleftrightarrow> (\<exists>x. r = Inr x \<and> f x = Inr y)"
  by (cases r) simp_all

lemma from_dict_kwargs_class:
  "from_dict_kwargs cls fs v b = Inr (PObj c xs) \<Longrightarrow> c = cls"
  by (auto simp: from_dict_kwargs_def construct_def err_bind_eq_Inr split: pyval.splits if_splits)

text \<open>The keypoint branches of both dispatchers are dead: every mapping with the keypoint
  keys has the object-detection keys, which are tested first.\<close>

lemma dict_to_annotation_never_keypoint:
  "dict_to_annotation v b \<noteq> Inr (PObj ''KeypointDetectionAnnotation'' xs)"
proof (cases v)
  case (PDict m)
  show ?thesis
  proof (cases "issubset (DICT_TO_ANNOTATION_MAP ''object_detection'') m")
    case True
    then show ?thesis
      by (auto simp: PDict ObjectDetectionAnnotation_from_dict_def err_bind_eq_Inr)
  next
    case False
    then have nk: "\<not> issubset (DICT_TO_ANNOTATION_MAP ''keypoint_detection'') m"
      by (auto simp: issubset_def DICT_TO_ANNOTATION_MAP_def)
    show ?thesis
      using False nk
      by (auto simp: PDict PanopticSegmentationAnnotation_from_dict_def
          DensePoseAnnotation_from_dict_def ImageCaptioningAnnotation_from_dict_def
          err_bind_eq_Inr dest: from_dict_kwargs_class)
  qed
qed simp_all

lemma dict_to_category_never_keypoint:
  "dict_to_category v b \<noteq> Inr (PObj ''KeypointDetectionCategory'' xs)"
proof (cases v)
  case (PDict m)
  show ?thesis
  proof (cases "issubset (DICT_TO_CATEGORY_MAP ''object_detection'') m")
    case True
    then show ?thesis
      by (auto simp: PDict ObjectDetectionCategory_from_dict_def dest: from_dict_kwargs_class)
  next
    case False
    from dict_to_category_no_shape [OF this, of b] show ?thesis
      unfolding PDict by (simp del: dict_to_category.simps)
  qed
qed simp_all

text \<open>
  C3: the dispatchers should test the most specific variant first, so that a mapping with
  all keypoint-detection keys is built as the keypoint variant. They test
  \<open>object_detection\<close> first: the keypoint annotation mapping is built as an
  \<open>ObjectDetectionAnnotation\<close>, its keypoints dropped, and the keypoint category
  mapping reaches \<open>ObjectDetectionCategory\<close>, whose constructor rejects the two
  extra keys (\<open>TypeError\<close>; \<open>ValueError\<close> under the strict policy).
\<close>

theorem dispatch_keypoint_as_object_detection:
  "issubset (DICT_TO_ANNOTATION_MAP ''keypoint_detection'') keypoint_annotation_dict
   \<and> dict_to_annotation (PDict keypoint_annotation_dict) True
       = Inr (PObj ''ObjectDetectionAnnotation''
           [(''id'', PInt 1), (''image_id'', PInt 1), (''category_id'', PInt 1),
            (''segmentation'', PList []), (''area'', PInt 0), (''bbox'', PList []),
            (''iscrowd'', PInt 0)])
   \<and> issubset (DICT_TO_CATEGORY_MAP ''keypoint_detection'') keypoint_category_dict
   \<and> dict_to_category (PDict keypoint_category_dict) True = Inl TypeError
   \<and> dict_to_category (PDict keypoint_category_dict) False = Inl ValueError"
  by (simp add: keypoint_annotation_dict_def keypoint_category_dict_def issubset_def keys_def
      DICT_TO_ANNOTATION_MAP_def DICT_TO_CATEGORY_MAP_def ObjectDetectionAnnotation_from_dict_def
      ObjectDetectionAnnotation_fields_def read_fields_def getitem_def segmentation_of_def
      ObjectDetectionCategory_from_dict_def from_dict_kwargs_def construct_def
      ObjectDetectionCategory_fields_def)

section \<open>Properties of splitting\<close>

lemma traverse_map:
  "(\<And>x. x \<in> set xs \<Longrightarrow> f x = Inr (g x)) \<Longrightarrow> traverse f xs = Inr (map g xs)"
  by (induction xs) simp_all

lemma isinstances_QImage [simp]: "isinstances (map QImage xs) is_Image"
  by (induction xs) (simp_all add: isinstances_def)

lemma images_of_QImage [simp]: "images_of (map QImage xs) = xs"
  by (induction xs) simp_all

lemma get_license_of_id:
  assumes "k \<in> set (license_ids d)"
  shows "\<exists>l. get_license (QInt k) d = Inr (Some l)"
proof -
  from assms have "\<exists>l \<in> set (licenses d). l_id l = k" by (auto simp: license_ids_def)
  from py_next_found [OF this] assms show ?thesis by auto
qed

lemma get_license_of_image:
  assumes "im \<in> set (images d)" and "i_license im \<in> set (license_ids d)"
  shows "\<exists>l. get_license (QImage im) d = Inr (Some l) \<and> l_id l = i_license im"
proof -
  from assms(2) have "\<exists>l \<in> set (licenses d). l_id l = i_license im"
    by (auto simp: license_ids_def)
  from py_next_found [OF this] assms(1) show ?thesis by auto
qed

lemma get_licenses_succeeds:
  assumes "set xs \<subseteq> set (images d)" and "\<forall>im \<in> set xs. i_license im \<in> set (license_ids d)"
  shows "\<exists>ls. get_licenses (map QImage xs) d = Inr ls"
proof -
  have 1: "traverse (\<lambda>im. err_bind (get_license (QImage im) d)
            (\<lambda>r. case r of None \<Rightarrow> Inl AttributeError | Some l \<Rightarrow> Inr (l_id l))) xs
          = Inr (map i_license xs)"
  proof (rule traverse_map)
    fix im assume "im \<in> set xs"
    with assms get_license_of_image [of im d] obtain l where
      "get_license (QImage im) d = Inr (Some l)" "l_id l = i_license im" by blast
    then show "err_bind (get_license (QImage im) d)
        (\<lambda>r. case r of None \<Rightarrow> Inl AttributeError | Some l \<Rightarrow> Inr (l_id l)) = Inr (i_license im)"
      by simp
  qed
  have 2: "traverse (\<lambda>k. get_license (QInt k) d) (remdups (map i_license xs))
          = Inr (map (\<lambda>k. projr (get_license (QInt k) d)) (remdups (map i_license xs)))"
  proof (rule traverse_map)
    fix k assume "k \<in> set (remdups (map i_license xs))"
    with assms(2) have "k \<in> set (license_ids d)" by auto
    from get_license_of_id [OF this] obtain l where "get_license (QInt k) d = Inr (Some l)" ..
    then show "get_license (QInt k) d = Inr (projr (get_license (QInt k) d))" by simp
  qed
  show ?thesis unfolding get_licenses_def by (simp add: 1 2 del: get_license.simps)
qed

lemma traverse_Inr_all:
  "traverse f xs = Inr ys \<Longrightarrow> y \<in> set ys \<Longrightarrow> \<exists>x \<in> set xs. f x = Inr y"
proof (induction xs arbitrary: ys)
  case Nil
  then show ?case by simp
next
  case (Cons x xs)
  then show ?case by (auto split: sum.splits)
qed

text \<open>Every id that \<open>get_licenses\<close> looks up was read off a license that was found, so
  no element of its result is \<open>None\<close>.\<close>

lemma get_licenses_no_None:
  assumes "get_licenses qs d = Inr ls"
  shows "None \<notin> set ls"
proof
  assume n: "None \<in> set ls"
  from assms obtain ks where
    ks: "traverse (\<lambda>im. err_bind (get_license (QImage im) d)
            (\<lambda>r. case r of None \<Rightarrow> Inl AttributeError | Some l \<Rightarrow> Inr (l_id l))) (images_of qs)
          = Inr ks"
    and ls: "traverse (\<lambda>k. get_license (QInt k) d) (remdups ks) = Inr ls"
    unfolding get_licenses_def by (auto simp: err_bind_eq_Inr split: if_splits)
  from traverse_Inr_all [OF ls n] obtain k where
    k: "k \<in> set ks" "get_license (QInt k) d = Inr None" by auto
  from traverse_Inr_all [OF ks k(1)] obtain im where
    "err_bind (get_license (QImage im) d)
       (\<lambda>r. case r of None \<Rightarrow> Inl AttributeError | Some l \<Rightarrow> Inr (l_id l)) = Inr k" by auto
  then obtain l where l: "get_license (QImage im) d = Inr (Some l)" "l_id l = k"
    by (auto simp: err_bind_eq_Inr split: option.splits)
  then have "l \<in> set (licenses d)"
    by (auto simp: err_bind_eq_Inr py_next_def find_Some_iff split: if_splits option.splits)
  with l(2) have "k \<in> set (license_ids d)" by (auto simp: license_ids_def)
  from get_license_of_id [OF this] k(2) show False by auto
qed

lemma get_categories_of_images:
  "\<exists>cs. get_categories (QList (map QImage xs)) d = Inr cs"
  by simp

lemma sub_dataset_succeeds:
  assumes "set xs \<subseteq> set (images d)" and "\<forall>im \<in> set xs. i_license im \<in> set (license_ids d)"
  shows "\<exists>s. sub_dataset xs d = Inr s \<and> images s = xs
           \<and> annotations s = filter (\<lambda>a. image_id a \<in> set (map i_id xs)) (annotations d)"
proof -
  from get_licenses_succeeds [OF assms] obtain ls where
    "get_licenses (map QImage xs) d = Inr ls" ..
  moreover from get_categories_of_images obtain cs where
    "get_categories (QList (map QImage xs)) d = Inr cs" ..
  ultimately show ?thesis unfolding sub_dataset_def by simp
qed

lemma mset_filter_disjoint:
  assumes "A \<inter> B = {}"
  shows "mset (filter (\<lambda>x. f x \<in> A) xs) + mset (filter (\<lambda>x. f x \<in> B) xs)
       = mset (filter (\<lambda>x. f x \<in> A \<union> B) xs)"
  using assms by (induction xs) auto

text \<open>
  Where every image's license is the id of a license, \<open>split\<close> does partition: for ten
  images of pairwise distinct ids and every permutation that the seeded shuffle may
  produce, the first side has three images, the sides share the images out, and every
  annotation whose \<open>image_id\<close> is the id of an image lands in exactly one side, the one
  that holds that image.
\<close>

lemma split_partition:
  assumes "length (images d) = 10"
    and "distinct (image_ids d)"
    and "mset (shuffle 42 (images d)) = mset (images d)"
    and "\<forall>im \<in> set (images d). i_license im \<in> set (license_ids d)"
  shows "\<exists>a b. split shuffle (3/10) 42 d = Inr (a, b)
           \<and> length (images a) = 3
           \<and> length (images a) + length (images b) = 10
           \<and> mset (images a) + mset (images b) = mset (images d)
           \<and> set (image_ids a) \<inter> set (image_ids b) = {}
           \<and> annotations a = filter (\<lambda>x. image_id x \<in> set (image_ids a)) (annotations d)
           \<and> annotations b = filter (\<lambda>x. image_id x \<in> set (image_ids b)) (annotations d)
           \<and> mset (annotations a) + mset (annotations b)
               = mset (filter (\<lambda>x. image_id x \<in> set (image_ids d)) (annotations d))"
proof -
  let ?imgs = "shuffle 42 (images d)"
  have len: "length ?imgs = 10"
    using assms(1,3) by (metis size_mset)
  have set_eq: "set ?imgs = set (images d)"
    using assms(3) by (rule mset_eq_setD)
  have "mset (map i_id ?imgs) = mset (map i_id (images d))"
    using assms(3) by (metis mset_map)
  then have dist: "distinct (map i_id ?imgs)"
    using assms(2) unfolding image_ids_def by (metis mset_eq_imp_distinct_iff)
  have point: "nat \<lfloor>of_nat (length (images d)) * (3/10 :: rat)\<rfloor> = 3"
    by (simp add: assms(1))
  have sub_a: "set (take 3 ?imgs) \<subseteq> set (images d)"
    using set_eq set_take_subset by fastforce
  have sub_b: "set (drop 3 ?imgs) \<subseteq> set (images d)"
    using set_eq set_drop_subset by fastforce
  from sub_dataset_succeeds [OF sub_a] assms(4) sub_a obtain a where
    a: "sub_dataset (take 3 ?imgs) d = Inr a" "images a = take 3 ?imgs"
       "annotations a = filter (\<lambda>x. image_id x \<in> set (map i_id (take 3 ?imgs))) (annotations d)"
    by blast
  from sub_dataset_succeeds [OF sub_b] assms(4) sub_b obtain b where
    b: "sub_dataset (drop 3 ?imgs) d = Inr b" "images b = drop 3 ?imgs"
       "annotations b = filter (\<lambda>x. image_id x \<in> set (map i_id (drop 3 ?imgs))) (annotations d)"
    by blast
  have run: "split shuffle (3/10) 42 d = Inr (a, b)"
    unfolding split_def Let_def point by (simp add: a(1) b(1))
  have la: "length (images a) = 3" using a(2) len by simp
  have lb: "length (images a) + length (images b) = 10" using a(2) b(2) len by simp
  have ms: "mset (images a) + mset (images b) = mset (images d)"
    unfolding a(2) b(2) using assms(3) by (metis append_take_drop_id mset_append)
  have "distinct (map i_id (take 3 ?imgs) @ map i_id (drop 3 ?imgs))"
    using dist by (metis append_take_drop_id map_append)
  then have disj: "set (image_ids a) \<inter> set (image_ids b) = {}"
    unfolding image_ids_def a(2) b(2) by simp
  have un: "set (image_ids a) \<union> set (image_ids b) = set (image_ids d)"
  proof -
    have "set (take 3 ?imgs) \<union> set (drop 3 ?imgs) = set ?imgs"
      by (metis append_take_drop_id set_append)
    then have "set (image_ids a) \<union> set (image_ids b) = i_id ` set ?imgs"
      unfolding image_ids_def a(2) b(2) by (simp add: image_Un [symmetric])
    then show ?thesis using set_eq by (simp add: image_ids_def)
  qed
  have aa: "annotations a = filter (\<lambda>x. image_id x \<in> set (image_ids a)) (annotations d)"
    using a(2,3) by (simp add: image_ids_def)
  have ab: "annotations b = filter (\<lambda>x. image_id x \<in> set (image_ids b)) (annotations d)"
    using b(2,3) by (simp add: image_ids_def)
  have "mset (annotations a) + mset (annotations b)
      = mset (filter (\<lambda>x. image_id x \<in> set (image_ids d)) (annotations d))"
    unfolding un [symmetric] by (subst aa, subst ab) (rule mset_filter_disjoint [OF disj])
  with run la lb ms disj aa ab show ?thesis by blast
qed

lemma ten_images_coco_images:
  "images ten_images_coco = ten_images 1" "license_ids ten_images_coco = [1]"
  "image_ids ten_images_coco = [0, 1, 2, 3, 4, 5, 6, 7, 8, 9]"
  by (simp_all add: ten_images_coco_def empty_coco_def ten_images_def license_ids_def
      image_ids_def mk_image_def mk_license_def)

lemma example_shuffle_ten:
  "example_shuffle s [x0, x1, x2, x3, x4, x5, x6, x7, x8, x9]
     = [x7, x3, x2, x8, x5, x6, x9, x4, x0, x1]"
  by (simp add: example_shuffle_def)

lemma example_shuffle_mset: "mset (example_shuffle s (ten_images l)) = mset (ten_images l)"
  unfolding ten_images_def list.map example_shuffle_ten by (simp add: add_mset_commute)

lemma split_partition_example:
  "length (images ten_images_coco) = 10
   \<and> distinct (image_ids ten_images_coco)
   \<and> mset (example_shuffle 42 (images ten_images_coco)) = mset (images ten_images_coco)
   \<and> i_license ` set (images ten_images_coco) \<subseteq> set (license_ids ten_images_coco)
   \<and> (\<exists>a b. split example_shuffle (3/10) 42 ten_images_coco = Inr (a, b)
           \<and> length (images a) = 3
           \<and> length (images a) + length (images b) = 10
           \<and> annotations a = filter (\<lambda>x. image_id x \<in> set (image_ids a)) (annotations ten_images_coco)
           \<and> annotations b = filter (\<lambda>x. image_id x \<in> set (image_ids b)) (annotations ten_images_coco)
           \<and> mset (annotations a) + mset (annotations b) = mset (annotations ten_images_coco))"
proof -
  have h1: "length (images ten_images_coco) = 10"
    by (simp add: ten_images_coco_images ten_images_def)
  have h2: "distinct (image_ids ten_images_coco)"
    by (simp add: ten_images_coco_images)
  have h3: "mset (example_shuffle 42 (images ten_images_coco)) = mset (images ten_images_coco)"
    by (simp add: ten_images_coco_images example_shuffle_mset)
  have h4: "\<forall>im \<in> set (images ten_images_coco). i_license im \<in> set (license_ids ten_images_coco)"
    by (simp add: ten_images_coco_images ten_images_def mk_image_def)
  have all: "filter (\<lambda>x. image_id x \<in> set (image_ids ten_images_coco)) (annotations ten_images_coco)
      = annotations ten_images_coco"
    by (simp add: ten_images_coco_images) (simp add: ten_images_coco_def)
  from h4 have h4': "i_license ` set (images ten_images_coco) \<subseteq> set (license_ids ten_images_coco)"
    by blast
  from split_partition [of ten_images_coco example_shuffle, OF h1 h2 h3 h4] h1 h2 h3 h4'
  show ?thesis
    unfolding all by blast
qed

text \<open>With no license to find, \<open>get_license(image)\<close> lets \<open>StopIteration\<close> escape,
  whatever the order of the shuffled images.\<close>

lemma traverse_first_error: "f x = Inl e \<Longrightarrow> traverse f (x # xs) = Inl e"
  by simp

lemma split_unlicensed_raises:
  assumes "mset (shuffle 42 (images unlicensed_coco)) = mset (images unlicensed_coco)"
  shows "split shuffle (3/10) 42 unlicensed_coco = Inl StopIteration"
proof -
  let ?d = unlicensed_coco
  let ?imgs = "shuffle 42 (images ?d)"
  have imgs: "images ?d = ten_images 0" and lic: "licenses ?d = []"
    by (simp_all add: unlicensed_coco_def empty_coco_def)
  have len: "length ?imgs = 10"
  proof -
    have "size (mset ?imgs) = size (mset (images ?d))" using assms by simp
    then show ?thesis by (simp add: imgs ten_images_def)
  qed
  have set_eq: "set ?imgs = set (images ?d)"
    using assms by (rule mset_eq_setD)
  have point: "nat \<lfloor>of_nat (length (images ?d)) * (3/10 :: rat)\<rfloor> = 3"
    by (simp add: imgs ten_images_def)
  from len obtain x xs where tk: "take 3 ?imgs = x # xs"
    by (cases "take 3 ?imgs") auto
  then have "x \<in> set ?imgs" by (metis in_set_takeD list.set_intros(1))
  with set_eq have x: "x \<in> set (images ?d)" by simp
  have "get_license (QImage x) ?d = Inl StopIteration"
    using x by (simp add: lic py_next_def)
  then have "get_licenses (map QImage (x # xs)) ?d = Inl StopIteration"
    using isinstances_QImage [of "x # xs"] unfolding get_licenses_def
    by (simp del: get_license.simps)
  then have "get_licenses (map QImage (take 3 ?imgs)) ?d = Inl StopIteration"
    by (simp only: tk)
  then have "sub_dataset (take 3 ?imgs) ?d = Inl StopIteration"
    by (simp add: sub_dataset_def)
  then show ?thesis
    unfolding split_def Let_def point by simp
qed

text \<open>
  C9: \<open>split(0.3, seed=42)\<close> on ten images of pairwise distinct ids should return two
  datasets. On ten images that carry the default license 0, in a dataset without
  licenses, it returns nothing: \<open>get_licenses\<close> calls \<open>get_license(image)\<close>, whose
  \<open>next\<close> finds no license and lets \<open>StopIteration\<close> escape (for every order of the
  shuffled images, by \<open>split_unlicensed_raises\<close>).
\<close>

theorem split_unlicensed_raises_StopIteration:
  "length (images unlicensed_coco) = 10
   \<and> distinct (image_ids unlicensed_coco)
   \<and> licenses unlicensed_coco = []
   \<and> split example_shuffle (3/10) 42 unlicensed_coco = Inl StopIteration"
proof -
  have u: "images unlicensed_coco = ten_images 0" "licenses unlicensed_coco = []"
    by (simp_all add: unlicensed_coco_def empty_coco_def)
  have "mset (example_shuffle 42 (images unlicensed_coco)) = mset (images unlicensed_coco)"
    by (simp add: u example_shuffle_mset)
  then have 1: "split example_shuffle (3/10) 42 unlicensed_coco = Inl StopIteration"
    by (rule split_unlicensed_raises)
  have 2: "length (images unlicensed_coco) = 10" "distinct (image_ids unlicensed_coco)"
    by (simp_all add: u ten_images_def image_ids_def mk_image_def)
  from 1 2 u(2) show ?thesis by simp
qed

text \<open>An annotation that names no image is selected for neither side: \<open>split\<close> takes the
  annotations of each side by \<open>image_id\<close>.\<close>

lemma split_drops_orphan_annotation:
  "length (images orphan_annotation_coco) = 10
   \<and> distinct (image_ids orphan_annotation_coco)
   \<and> annotations orphan_annotation_coco = [ImageCaptioningAnnotation 1 99 ''a dog'']
   \<and> map_sum id (\<lambda>(a, b). (annotations a, annotations b))
        (split example_shuffle (3/10) 42 orphan_annotation_coco) = Inr ([], [])"
proof -
  let ?o = orphan_annotation_coco
  have o: "images ?o = ten_images 1" "license_ids ?o = [1]"
      "image_ids ?o = [0, 1, 2, 3, 4, 5, 6, 7, 8, 9]"
      "annotations ?o = [ImageCaptioningAnnotation 1 99 ''a dog'']"
    by (simp_all add: orphan_annotation_coco_def ten_images_coco_def empty_coco_def ten_images_def
        license_ids_def image_ids_def mk_image_def mk_license_def)
  have h1: "length (images ?o) = 10" by (simp add: o ten_images_def)
  have h2: "distinct (image_ids ?o)" by (simp add: o)
  have h3: "mset (example_shuffle 42 (images ?o)) = mset (images ?o)"
    by (simp add: o example_shuffle_mset)
  have h4: "\<forall>im \<in> set (images ?o). i_license im \<in> set (license_ids ?o)"
    by (simp add: o ten_images_def mk_image_def)
  have 3: "map_sum id (\<lambda>(a, b). (annotations a, annotations b))
        (split example_shuffle (3/10) 42 ?o) = Inr ([], [])"
  proof -
    have sub: "\<And>xs. set xs \<subseteq> set (images ?o) \<Longrightarrow>
        \<exists>s. sub_dataset xs ?o = Inr s \<and> annotations s = []"
    proof -
      fix xs assume a: "set xs \<subseteq> set (images ?o)"
      with h4 have "\<forall>im \<in> set xs. i_license im \<in> set (license_ids ?o)" by blast
      from sub_dataset_succeeds [OF a this] obtain s where
        s: "sub_dataset xs ?o = Inr s"
           "annotations s = filter (\<lambda>a. image_id a \<in> set (map i_id xs)) (annotations ?o)"
        by blast
      have "i_id ` set xs \<subseteq> set (image_ids ?o)"
        using a by (auto simp: image_ids_def)
      then have "99 \<notin> i_id ` set xs" by (auto simp: o)
      with s show "\<exists>s. sub_dataset xs ?o = Inr s \<and> annotations s = []"
        by (simp add: o)
    qed
    have set_eq: "set (example_shuffle 42 (images ?o)) = set (images ?o)"
      using h3 by (rule mset_eq_setD)
    have point: "nat \<lfloor>of_nat (length (images ?o)) * (3/10 :: rat)\<rfloor> = 3"
      by (simp add: h1)
    obtain a where a: "sub_dataset (take 3 (example_shuffle 42 (images ?o))) ?o = Inr a"
        "annotations a = []"
      using sub [of "take 3 (example_shuffle 42 (images ?o))"] set_eq
      by (metis in_set_takeD subsetI)
    obtain b where b: "sub_dataset (drop 3 (example_shuffle 42 (images ?o))) ?o = Inr b"
        "annotations b = []"
      using sub [of "drop 3 (example_shuffle 42 (images ?o))"] set_eq
      by (metis in_set_dropD subsetI)
    show ?thesis
      unfolding split_def Let_def point by (simp add: a b)
  qed
  from 3 h1 h2 o(4) show ?thesis by simp
qed

section \<open>Id uniqueness\<close>

subsection \<open>Lists of ids under update\<close>

lemma distinct_update_fresh:
  "distinct ys \<Longrightarrow> k \<notin> set ys \<Longrightarrow> distinct (ys[i := k])"
  by (simp add: distinct_list_update)

lemma distinct_update_held:
  assumes "distinct ys" and "k \<notin> set ys \<or> ys ! i = k"
  shows "distinct (ys[i := k])"
  using assms by (auto simp: distinct_update_fresh)

lemma displaced_absent:
  assumes "distinct ys" and "i < length ys" and "ys ! i = k" and "v \<noteq> k"
  shows "k \<notin> set (ys[i := v])"
proof
  assume "k \<in> set (ys[i := v])"
  then obtain j where j: "j < length ys" "(ys[i := v]) ! j = k"
    by (auto simp: in_set_conv_nth)
  with assms(4) have "j \<noteq> i" using assms(2) by auto
  with j have "ys ! j = k" by simp
  with assms(1,2,3) j(1) \<open>j \<noteq> i\<close> show False by (auto simp: distinct_conv_nth)
qed

lemma position_found:
  assumes "\<exists>x \<in> set xs. P x"
  shows "position P xs < length xs" and "P (xs ! position P xs)"
proof -
  from assms show lt: "position P xs < length xs"
    unfolding position_def by (induction xs) auto
  then show "P (xs ! position P xs)"
    unfolding position_def using nth_length_takeWhile [of "\<lambda>x. \<not> P x" xs] by blast
qed

lemma fresh_not_present:
  assumes "py_max (p @ c) = Inr m"
  shows "m + 1 \<notin> set p"
proof -
  from assms have ne: "p @ c \<noteq> []" by auto
  from py_max_Max [OF ne] assms have m: "m = Max (set (p @ c))" by simp
  show ?thesis
  proof
    assume "m + 1 \<in> set p"
    then have "m + 1 \<le> Max (set (p @ c))" by (intro Max_ge) auto
    with m show False by simp
  qed
qed

lemma generate_new_id_fresh:
  "generate_new_id p c = Inr (k, c') \<Longrightarrow> k \<notin> set p"
  unfolding generate_new_id_def by (auto split: sum.splits dest: fresh_not_present)

lemma generate_new_id_succeeds:
  "p \<noteq> [] \<Longrightarrow> \<exists>k c'. generate_new_id p c = Inr (k, c')"
  using generate_new_id_nonempty [of p c] by simp

subsection \<open>The ids of the annotations\<close>

text \<open>The ids of identified annotations, read off the list of optional ids.\<close>

lemma annotation_ids_map_filter:
  "annotation_ids d = List.map_filter (\<lambda>x. x) (map a_id (annotations d))"
  unfolding annotation_ids_def is_Indexed_def
  by (induction "annotations d" arbitrary: d) (auto simp: List.map_filter_def comp_def filter_map)

lemma somes_append:
  "List.map_filter (\<lambda>x. x) (xs @ ys) = List.map_filter (\<lambda>x. x) xs @ List.map_filter (\<lambda>x. x) ys"
  by (simp add: List.map_filter_def)

lemma in_somes: "k \<in> set (List.map_filter (\<lambda>x. x) ys) \<longleftrightarrow> Some k \<in> set ys"
  by (auto simp: List.map_filter_def image_iff)

lemma somes_update_fresh:
  assumes "distinct (List.map_filter (\<lambda>x. x) ys)" and "Some k \<notin> set ys \<or> ys ! i = Some k"
  shows "distinct (List.map_filter (\<lambda>x. x) (ys[i := Some k]))"
proof (cases "i < length ys")
  case False
  with assms(1) show ?thesis by (simp add: list_update_beyond)
next
  case True
  show ?thesis
  proof (cases "ys ! i = Some k")
    case True
    then have "ys[i := Some k] = ys" by (metis list_update_id)
    with assms(1) show ?thesis by simp
  next
    case False
    with assms(2) have k: "Some k \<notin> set ys" by simp
    have split: "ys = take i ys @ ys ! i # drop (Suc i) ys"
      using True by (simp add: id_take_nth_drop)
    have upd: "ys[i := Some k] = take i ys @ Some k # drop (Suc i) ys"
      using True by (simp add: upd_conv_take_nth_drop)
    from k have "Some k \<notin> set (take i ys)" "Some k \<notin> set (drop (Suc i) ys)"
      by (auto dest: in_set_takeD in_set_dropD)
    then have nk: "k \<notin> set (List.map_filter (\<lambda>x. x) (take i ys))"
      "k \<notin> set (List.map_filter (\<lambda>x. x) (drop (Suc i) ys))"
      by (simp_all add: in_somes)
    from assms(1) have "distinct (List.map_filter (\<lambda>x. x) (take i ys @ ys ! i # drop (Suc i) ys))"
      using split by simp
    then have "distinct (List.map_filter (\<lambda>x. x) (take i ys) @ List.map_filter (\<lambda>x. x) (drop (Suc i) ys))"
      by (cases "ys ! i") (auto simp: List.map_filter_def)
    with nk show ?thesis
      unfolding upd by (auto simp: List.map_filter_def)
  qed
qed

lemma somes_displaced_absent:
  assumes "distinct (List.map_filter (\<lambda>x. x) ys)" and "i < length ys" and "ys ! i = Some k"
    and "v \<noteq> Some k"
  shows "Some k \<notin> set (ys[i := v])"
proof -
  have split: "ys = take i ys @ Some k # drop (Suc i) ys"
    using assms(2,3) by (metis id_take_nth_drop)
  have upd: "ys[i := v] = take i ys @ v # drop (Suc i) ys"
    using assms(2) by (simp add: upd_conv_take_nth_drop)
  from assms(1) have "distinct (List.map_filter (\<lambda>x. x) (take i ys @ Some k # drop (Suc i) ys))"
    using split by simp
  then have "k \<notin> set (List.map_filter (\<lambda>x. x) (take i ys))"
    and "k \<notin> set (List.map_filter (\<lambda>x. x) (drop (Suc i) ys))"
    by (auto simp: List.map_filter_def)
  then have "Some k \<notin> set (take i ys)" "Some k \<notin> set (drop (Suc i) ys)"
    by (simp_all add: in_somes)
  with assms(4) show ?thesis unfolding upd by auto
qed

subsection \<open>Appending and removing\<close>

lemma unique_ids_frame:
  assumes "unique_ids d"
    and "distinct (license_ids d) \<Longrightarrow> distinct (license_ids d')"
    and "distinct (category_ids d) \<Longrightarrow> distinct (category_ids d')"
    and "distinct (image_ids d) \<Longrightarrow> distinct (image_ids d')"
    and "distinct (annotation_ids d) \<Longrightarrow> distinct (annotation_ids d')"
  shows "unique_ids d'"
  using assms unfolding unique_ids_def by blast

lemma append_license_unique:
  "unique_ids d \<Longrightarrow> append_license l d = Inr d' \<Longrightarrow> unique_ids d'"
  unfolding append_license_def trim_cached_license_ids_def unique_ids_def
  by (auto simp: license_ids_def category_ids_def image_ids_def annotation_ids_def
      has_categories_def the_categories_def split: if_splits)

lemma append_image_unique:
  "unique_ids d \<Longrightarrow> append_image im d = Inr d' \<Longrightarrow> unique_ids d'"
  unfolding append_image_def trim_cached_image_ids_def unique_ids_def
  by (auto simp: license_ids_def category_ids_def image_ids_def annotation_ids_def
      has_categories_def the_categories_def split: if_splits)

lemma append_category_unique:
  "unique_ids d \<Longrightarrow> append_category c d = Inr d' \<Longrightarrow> unique_ids d'"
  unfolding append_category_def trim_cached_category_ids_def unique_ids_def Let_def
  by (auto simp: license_ids_def category_ids_def image_ids_def annotation_ids_def
      has_categories_def the_categories_def split: if_splits option.splits)

lemma append_annotation_unique:
  "unique_ids d \<Longrightarrow> append_annotation a d = Inr d' \<Longrightarrow> unique_ids d'"
  unfolding append_annotation_def trim_cached_annotation_ids_def unique_ids_def
  by (auto simp: license_ids_def category_ids_def image_ids_def annotation_ids_def
      has_categories_def the_categories_def is_Indexed_def split: if_splits)

lemma distinct_map_remove1: "distinct (map f xs) \<Longrightarrow> distinct (map f (remove1 x xs))"
  unfolding distinct_map
  using set_remove1_subset [of x xs] by (auto intro: inj_on_subset)

lemma distinct_map_filter_remove1:
  "distinct (map f (filter P xs)) \<Longrightarrow> distinct (map f (filter P (remove1 x xs)))"
  unfolding filter_remove1 by (rule distinct_map_remove1)

lemma remove_annotation_unique: "unique_ids d \<Longrightarrow> unique_ids (remove_annotation r d)"
  unfolding remove_annotation_def unique_ids_def
  by (auto simp: license_ids_def category_ids_def image_ids_def annotation_ids_def
      has_categories_def the_categories_def distinct_map_filter_remove1 split: option.splits)

lemma remove_annotaitons_unique: "unique_ids d \<Longrightarrow> unique_ids (remove_annotaitons as d)"
  unfolding remove_annotaitons_def
  by (induction as arbitrary: d) (simp_all add: remove_annotation_unique)

lemma remove_image_unique:
  assumes "unique_ids d" and "remove_image r g d = Inr d'"
  shows "unique_ids d'"
proof -
  have step: "\<And>im. unique_ids (d\<lparr>images := remove1 im (images d)\<rparr>)"
    using assms(1) unfolding unique_ids_def
    by (auto simp: license_ids_def category_ids_def image_ids_def annotation_ids_def
        has_categories_def the_categories_def distinct_map_remove1)
  from assms show ?thesis
    unfolding remove_image_def Let_def
    by (auto simp: step remove_annotaitons_unique split: option.splits if_splits)
qed

lemma remove_images_unique:
  "unique_ids d \<Longrightarrow> remove_images ims g d = Inr d' \<Longrightarrow> unique_ids d'"
proof (induction ims arbitrary: d)
  case Nil
  then show ?case by simp
next
  case (Cons im ims)
  from Cons.prems(2) obtain d1 where
    1: "remove_image (Foreign im) g d = Inr d1" and 2: "remove_images ims g d1 = Inr d'"
    by (auto simp: err_bind_eq_Inr)
  from remove_image_unique [OF Cons.prems(1) 1] have "unique_ids d1" .
  from Cons.IH [OF this 2] show ?case .
qed

lemma remove_license_unique:
  assumes "unique_ids d" and "remove_license r f g d = Inr d'"
  shows "unique_ids d'"
proof -
  have step: "\<And>l. unique_ids (d\<lparr>licenses := remove1 l (licenses d)\<rparr>)"
    using assms(1) unfolding unique_ids_def
    by (auto simp: license_ids_def category_ids_def image_ids_def annotation_ids_def
        has_categories_def the_categories_def distinct_map_remove1)
  from assms show ?thesis
    unfolding remove_license_def Let_def
    by (auto simp: step err_bind_eq_Inr split: option.splits if_splits
        intro: remove_images_unique [OF step])
qed

lemma remove_category_unique:
  assumes "unique_ids d" and "remove_category r g d = Inr d'"
  shows "unique_ids d'"
proof -
  have step: "unique_ids (d\<lparr>categories := Some (remove1 c (the_categories d))\<rparr>)" for c
  proof (rule unique_ids_frame [OF assms(1)])
    assume dc: "distinct (category_ids d)"
    show "distinct (category_ids (d\<lparr>categories := Some (remove1 c (the_categories d))\<rparr>))"
    proof (cases "has_categories d")
      case True
      with dc have "distinct (map c_id (the_categories d))" by (simp add: category_ids_def)
      then have "distinct (map c_id (remove1 c (the_categories d)))" by (rule distinct_map_remove1)
      then show ?thesis by (simp add: category_ids_def has_categories_def the_categories_def)
    next
      case False
      then have "the_categories d = []"
        by (auto simp: has_categories_def the_categories_def split: option.splits)
      then show ?thesis by (simp add: category_ids_def has_categories_def the_categories_def)
    qed
  qed (simp_all add: license_ids_def image_ids_def annotation_ids_def)
  from assms show ?thesis
    unfolding remove_category_def Let_def
    by (auto simp: step err_bind_eq_Inr remove_annotaitons_unique
        simp del: get_annotations_by_category.simps split: option.splits if_splits)
qed

subsection \<open>Reindexing one record\<close>

lemma id_or_new_cases:
  assumes "id_or_new new_id gen d = Inr (k, d1)"
  obtains "new_id = Some k" "d1 = d" | "new_id = None" "gen d = Inr (k, d1)"
  using assms unfolding id_or_new_def by (cases new_id) auto

lemma map_update_selected:
  "(\<And>x. g (f x) = g x) \<Longrightarrow> map g (update_selected sel f xs) = map g xs"
  unfolding update_selected_def by (induction xs) simp_all

lemma length_update_selected [simp]: "length (update_selected sel f xs) = length xs"
  by (simp add: update_selected_def)

lemma a_id_set_image_id [simp]: "a_id (set_image_id k a) = a_id a"
  by (cases a) simp_all

lemma a_id_recategorize [simp]: "a_id (recategorize old new a) = a_id a"
  by (cases a) (simp_all add: is_Categorized_def)

lemma a_id_set_a_id: "a_id (set_a_id k a) = (if a_id a = None then None else Some k)"
  by (cases a) simp_all

lemma c_id_set_c_id [simp]: "c_id (set_c_id k c) = k"
  by (cases c) simp_all

lemma get_new_license_id_effect:
  assumes "get_new_license_id d = Inr (k, d1)"
  shows "k \<notin> set (license_ids d)" "licenses d1 = licenses d" "images d1 = images d"
    "categories d1 = categories d" "annotations d1 = annotations d"
  using assms unfolding get_new_license_id_def
  by (auto split: sum.splits dest: generate_new_id_fresh)

lemma get_new_image_id_effect:
  assumes "get_new_image_id d = Inr (k, d1)"
  shows "k \<notin> set (image_ids d)" "licenses d1 = licenses d" "images d1 = images d"
    "categories d1 = categories d" "annotations d1 = annotations d"
  using assms unfolding get_new_image_id_def
  by (auto split: sum.splits dest: generate_new_id_fresh)

lemma get_new_category_id_effect:
  assumes "get_new_category_id d = Inr (k, d1)"
  shows "k \<notin> set (category_ids d)" "licenses d1 = licenses d" "images d1 = images d"
    "categories d1 = categories d" "annotations d1 = annotations d"
  using assms unfolding get_new_category_id_def
  by (auto split: sum.splits dest: generate_new_id_fresh)

lemma get_new_annotation_id_effect:
  assumes "get_new_annotation_id d = Inr (k, d1)"
  shows "k \<notin> set (annotation_ids d)" "licenses d1 = licenses d" "images d1 = images d"
    "categories d1 = categories d" "annotations d1 = annotations d"
  using assms unfolding get_new_annotation_id_def
  by (auto split: sum.splits dest: generate_new_id_fresh)

text \<open>The id lists after a singular reindex: the list of the collection has the new id at
  the position of the record (and is as before for a record that is not stored); the
  other three lists are as before.\<close>

lemma fresh_id_exists: "\<exists>k::int. k \<notin> set xs"
proof (cases "xs = []")
  case False
  have "Max (set xs) + 1 \<notin> set xs"
    by (metis List.finite_set Max_ge add_le_same_cancel1 not_one_le_zero)
  then show ?thesis ..
qed simp

lemma new_id_exists: "\<exists>k::int. new_id = Some k \<or> new_id = None \<and> k \<notin> set xs"
  using fresh_id_exists [of xs] by (cases new_id) auto

lemma reindex_license_effect:
  assumes "reindex_license r new_id d = Inr d'"
  shows "image_ids d' = image_ids d \<and> categories d' = categories d
    \<and> annotations d' = annotations d \<and> length (licenses d') = length (licenses d)
    \<and> (\<exists>k. (new_id = Some k \<or> new_id = None \<and> k \<notin> set (license_ids d))
        \<and> license_ids d' = (case r of Stored i \<Rightarrow> (license_ids d)[i := k] | Foreign v \<Rightarrow> license_ids d))"
proof (cases "value_of (licenses d) r")
  case None
  then obtain i where r: "r = Stored i" "\<not> i < length (licenses d)"
    by (cases r) (auto split: if_splits)
  from None assms have "d' = d" by (simp add: reindex_license_def)
  then show ?thesis
    using r new_id_exists [of new_id "license_ids d"]
    by (auto simp: license_ids_def list_update_beyond)
next
  case (Some l)
  let ?sel = "\<lambda>d1. filter (\<lambda>im. i_license im = l_id l) (images d1)"
  from assms Some obtain k d1 where
    k: "id_or_new new_id get_new_license_id d = Inr (k, d1)"
    and d': "d' = (case r of
         Stored i \<Rightarrow> d1\<lparr>images := update_selected (?sel d1) (\<lambda>im. im\<lparr>i_license := k\<rparr>) (images d1),
             licenses := (licenses d1)[i := l\<lparr>l_id := k\<rparr>]\<rparr>
       | Foreign v \<Rightarrow> d1\<lparr>images := update_selected (?sel d1) (\<lambda>im. im\<lparr>i_license := k\<rparr>) (images d1)\<rparr>)"
    unfolding reindex_license_def Let_def
    by (cases r; auto simp: err_bind_eq_Inr)
  from k have fresh: "new_id = Some k \<or> new_id = None \<and> k \<notin> set (license_ids d)"
    and same: "licenses d1 = licenses d" "images d1 = images d" "categories d1 = categories d"
      "annotations d1 = annotations d"
    by (auto elim!: id_or_new_cases dest: get_new_license_id_effect)
  have "license_ids d' = (case r of Stored i \<Rightarrow> (license_ids d)[i := k] | Foreign v \<Rightarrow> license_ids d)"
    unfolding d' using same by (cases r) (simp_all add: license_ids_def map_update)
  moreover have "image_ids d' = image_ids d" "categories d' = categories d"
    "annotations d' = annotations d" "length (licenses d') = length (licenses d)"
    unfolding d' using same by (cases r; simp add: image_ids_def map_update_selected)+
  ultimately show ?thesis using fresh by blast
qed

lemma reindex_image_effect:
  assumes "reindex_image r new_id d = Inr d'"
  shows "license_ids d' = license_ids d \<and> categories d' = categories d
    \<and> annotation_ids d' = annotation_ids d \<and> length (images d') = length (images d)
    \<and> length (annotations d') = length (annotations d)
    \<and> (\<exists>k. (new_id = Some k \<or> new_id = None \<and> k \<notin> set (image_ids d))
        \<and> image_ids d' = (case r of Stored i \<Rightarrow> (image_ids d)[i := k] | Foreign v \<Rightarrow> image_ids d))"
proof (cases "value_of (images d) r")
  case None
  then obtain i where r: "r = Stored i" "\<not> i < length (images d)"
    by (cases r) (auto split: if_splits)
  from None assms have "d' = d" by (simp add: reindex_image_def)
  then show ?thesis
    using r new_id_exists [of new_id "image_ids d"]
    by (auto simp: image_ids_def list_update_beyond)
next
  case (Some im)
  let ?sel = "\<lambda>d1. filter (\<lambda>a. image_id a = i_id im) (annotations d1)"
  from assms Some obtain k d1 where
    k: "id_or_new new_id get_new_image_id d = Inr (k, d1)"
    and d': "d' = (case r of
         Stored i \<Rightarrow> d1\<lparr>annotations := update_selected (?sel d1) (set_image_id k) (annotations d1),
             images := (images d1)[i := im\<lparr>i_id := k\<rparr>]\<rparr>
       | Foreign v \<Rightarrow> d1\<lparr>annotations := update_selected (?sel d1) (set_image_id k) (annotations d1)\<rparr>)"
    unfolding reindex_image_def Let_def
    by (cases r; auto simp: err_bind_eq_Inr)
  from k have fresh: "new_id = Some k \<or> new_id = None \<and> k \<notin> set (image_ids d)"
    and same: "licenses d1 = licenses d" "images d1 = images d" "categories d1 = categories d"
      "annotations d1 = annotations d"
    by (auto elim!: id_or_new_cases dest: get_new_image_id_effect)
  have "image_ids d' = (case r of Stored i \<Rightarrow> (image_ids d)[i := k] | Foreign v \<Rightarrow> image_ids d)"
    unfolding d' using same by (cases r) (simp_all add: image_ids_def map_update)
  moreover have "license_ids d' = license_ids d" "categories d' = categories d"
    "annotation_ids d' = annotation_ids d" "length (images d') = length (images d)"
    "length (annotations d') = length (annotations d)"
    unfolding d' using same
    by (cases r; simp add: license_ids_def annotation_ids_map_filter map_update_selected)+
  ultimately show ?thesis using fresh by blast
qed

lemma reindex_annotation_effect:
  assumes "reindex_annotation r new_id d = Inr d'"
  shows "license_ids d' = license_ids d \<and> categories d' = categories d
    \<and> image_ids d' = image_ids d \<and> length (annotations d') = length (annotations d)
    \<and> (\<exists>k. (new_id = Some k \<or> new_id = None \<and> k \<notin> set (annotation_ids d))
        \<and> map a_id (annotations d') =
            (case r of
               Stored i \<Rightarrow>
                 if i < length (annotations d) \<and> a_id (annotations d ! i) \<noteq> None
                 then (map a_id (annotations d))[i := Some k] else map a_id (annotations d)
             | Foreign v \<Rightarrow> map a_id (annotations d)))"
proof (cases "value_of (annotations d) r")
  case None
  then obtain i where r: "r = Stored i" "\<not> i < length (annotations d)"
    by (cases r) (auto split: if_splits)
  from None assms have "d' = d" by (simp add: reindex_annotation_def)
  then show ?thesis
    using r new_id_exists [of new_id "annotation_ids d"] by auto
next
  case (Some a)
  from assms Some obtain k d1 where
    k: "id_or_new new_id get_new_annotation_id d = Inr (k, d1)"
    and d': "d' = (case r of
         Stored i \<Rightarrow> d1\<lparr>annotations := (annotations d1)[i := set_a_id k a]\<rparr>
       | Foreign v \<Rightarrow> d1)"
    unfolding reindex_annotation_def
    by (cases r; auto simp: err_bind_eq_Inr)
  from k have fresh: "new_id = Some k \<or> new_id = None \<and> k \<notin> set (annotation_ids d)"
    and same: "licenses d1 = licenses d" "images d1 = images d" "categories d1 = categories d"
      "annotations d1 = annotations d"
    by (auto elim!: id_or_new_cases dest: get_new_annotation_id_effect)
  have "map a_id (annotations d') =
            (case r of
               Stored i \<Rightarrow>
                 if i < length (annotations d) \<and> a_id (annotations d ! i) \<noteq> None
                 then (map a_id (annotations d))[i := Some k] else map a_id (annotations d)
             | Foreign v \<Rightarrow> map a_id (annotations d))"
  proof (cases r)
    case (Stored i)
    with Some have i: "i < length (annotations d)" "a = annotations d ! i"
      by (auto split: if_splits)
    show ?thesis
    proof (cases "a_id a")
      case None
      then have "set_a_id k a = a" by (cases a) simp_all
      with None i show ?thesis
        unfolding d' Stored by (simp add: same list_update_id)
    next
      case (Some j)
      with i show ?thesis
        unfolding d' Stored by (simp add: same map_update a_id_set_a_id)
    qed
  next
    case (Foreign v)
    then show ?thesis unfolding d' by (simp add: same)
  qed
  moreover have "license_ids d' = license_ids d" "categories d' = categories d"
    "image_ids d' = image_ids d" "length (annotations d') = length (annotations d)"
    unfolding d' using same by (cases r; simp add: license_ids_def image_ids_def)+
  ultimately show ?thesis using fresh by blast
qed

lemma category_ids_cong:
  "categories d' = categories d \<Longrightarrow> category_ids d' = category_ids d"
  by (simp add: category_ids_def has_categories_def the_categories_def)

lemma annotation_ids_cong:
  "map a_id (annotations d') = map a_id (annotations d) \<Longrightarrow> annotation_ids d' = annotation_ids d"
  by (simp add: annotation_ids_map_filter)

lemma reindex_category_effect:
  assumes "reindex_category r new_id d = Inr d'"
  shows "license_ids d' = license_ids d \<and> image_ids d' = image_ids d
    \<and> annotation_ids d' = annotation_ids d
    \<and> length (the_categories d') = length (the_categories d)
    \<and> has_categories d' = has_categories d
    \<and> length (annotations d') = length (annotations d)
    \<and> (\<exists>k. (new_id = Some k \<or> new_id = None \<and> k \<notin> set (category_ids d))
        \<and> category_ids d' = (case r of Stored i \<Rightarrow> (category_ids d)[i := k] | Foreign v \<Rightarrow> category_ids d))"
proof (cases "has_categories d")
  case False
  with assms have "d' = d" by (simp add: reindex_category_def)
  then show ?thesis
    using False new_id_exists [of new_id "category_ids d"]
    by (cases r) (auto simp: category_ids_def)
next
  case hc: True
  show ?thesis
  proof (cases "value_of (the_categories d) r")
    case None
    then obtain i where r: "r = Stored i" "\<not> i < length (the_categories d)"
      by (cases r) (auto split: if_splits)
    from None assms hc have "d' = d" by (simp add: reindex_category_def)
    then show ?thesis
      using r new_id_exists [of new_id "category_ids d"]
      by (auto simp: category_ids_def list_update_beyond)
  next
    case (Some c)
    have "\<exists>k d1 as. id_or_new new_id get_new_category_id d = Inr (k, d1) \<and> d' = (case r of
           Stored i \<Rightarrow> d1\<lparr>annotations := update_selected as (recategorize (c_id c) k) (annotations d1),
               categories := Some ((the_categories d1)[i := set_c_id k c])\<rparr>
         | Foreign v \<Rightarrow> d1\<lparr>annotations := update_selected as (recategorize (c_id c) k) (annotations d1)\<rparr>)"
    proof -
      from assms Some hc obtain k d1 as where
        1: "id_or_new new_id get_new_category_id d = Inr (k, d1)"
        and 2: "d' = (case r of
           Stored i \<Rightarrow> d1\<lparr>annotations := update_selected as (recategorize (c_id c) k) (annotations d1),
               categories := Some ((the_categories
                  (d1\<lparr>annotations := update_selected as (recategorize (c_id c) k) (annotations d1)\<rparr>))
                    [i := set_c_id k c])\<rparr>
         | Foreign v \<Rightarrow> d1\<lparr>annotations := update_selected as (recategorize (c_id c) k) (annotations d1)\<rparr>)"
        unfolding reindex_category_def Let_def
        by (simp add: err_bind_eq_Inr del: get_annotations_by_category.simps) blast
      have 3: "the_categories (d1\<lparr>annotations := update_selected as (recategorize (c_id c) k) (annotations d1)\<rparr>)
          = the_categories d1"
        by (simp add: the_categories_def)
      from 1 2 [unfolded 3] show ?thesis by blast
    qed
    then obtain k d1 as where
      k: "id_or_new new_id get_new_category_id d = Inr (k, d1)"
      and d': "d' = (case r of
           Stored i \<Rightarrow> d1\<lparr>annotations := update_selected as (recategorize (c_id c) k) (annotations d1),
               categories := Some ((the_categories d1)[i := set_c_id k c])\<rparr>
         | Foreign v \<Rightarrow> d1\<lparr>annotations := update_selected as (recategorize (c_id c) k) (annotations d1)\<rparr>)"
      by blast
    from k have fresh: "new_id = Some k \<or> new_id = None \<and> k \<notin> set (category_ids d)"
      and same: "licenses d1 = licenses d" "images d1 = images d" "categories d1 = categories d"
        "annotations d1 = annotations d"
      by (auto elim!: id_or_new_cases dest: get_new_category_id_effect)
    have tc: "the_categories d1 = the_categories d" and hc1: "has_categories d1 = has_categories d"
      using same(3) by (simp_all add: the_categories_def has_categories_def)
    have ne: "the_categories d \<noteq> []"
      using hc by (auto simp: has_categories_def the_categories_def split: option.splits)
    let ?d2 = "d1\<lparr>annotations := update_selected as (recategorize (c_id c) k) (annotations d1)\<rparr>"
    have d2: "license_ids ?d2 = license_ids d" "image_ids ?d2 = image_ids d"
      "annotation_ids ?d2 = annotation_ids d" "length (annotations ?d2) = length (annotations d)"
      "categories ?d2 = categories d"
      using same
      by (simp_all add: license_ids_def image_ids_def annotation_ids_map_filter map_update_selected)
    show ?thesis
    proof (cases r)
      case (Foreign v)
      with d' have eq: "d' = ?d2" by simp
      have "category_ids d' = category_ids d" "the_categories d' = the_categories d"
        "has_categories d' = has_categories d"
        unfolding eq using d2(5)
        by (simp_all add: category_ids_def the_categories_def has_categories_def)
      moreover have "license_ids d' = license_ids d" "image_ids d' = image_ids d"
        "annotation_ids d' = annotation_ids d" "length (annotations d') = length (annotations d)"
        unfolding eq by (rule d2)+
      ultimately show ?thesis
        unfolding Foreign using fresh by (intro conjI exI [of _ k]) simp_all
    next
      case (Stored i)
      let ?cs = "(the_categories d)[i := set_c_id k c]"
      from d' Stored tc have eq: "d' = ?d2\<lparr>categories := Some ?cs\<rparr>" by simp
      have cs: "the_categories d' = ?cs" "has_categories d'"
        unfolding eq using ne by (simp_all add: the_categories_def has_categories_def)
      then have "category_ids d' = (category_ids d)[i := k]"
        using hc by (simp add: category_ids_def map_update)
      moreover have "license_ids d' = license_ids d" "image_ids d' = image_ids d"
        "annotation_ids d' = annotation_ids d" "length (annotations d') = length (annotations d)"
        using d2(1-4) unfolding eq
        by (simp_all add: license_ids_def image_ids_def annotation_ids_def)
      ultimately show ?thesis
        unfolding Stored using cs hc fresh by (intro conjI exI [of _ k]) simp_all
    qed
  qed
qed

text \<open>A singular reindex keeps ids unique when the new id is generated or free.\<close>

lemma reindex_license_unique:
  assumes "unique_ids d" and "id_free (ReindexLicense r new_id) d"
    and "reindex_license r new_id d = Inr d'"
  shows "unique_ids d'"
proof (rule unique_ids_frame [OF assms(1)])
  note e = reindex_license_effect [OF assms(3)]
  from e have "image_ids d' = image_ids d" by blast
  then show "distinct (image_ids d) \<Longrightarrow> distinct (image_ids d')" by simp
  from e have "categories d' = categories d" by blast
  then have "category_ids d' = category_ids d" by (rule category_ids_cong)
  then show "distinct (category_ids d) \<Longrightarrow> distinct (category_ids d')" by simp
  from e have "annotations d' = annotations d" by blast
  then have "annotation_ids d' = annotation_ids d" by (simp add: annotation_ids_def)
  then show "distinct (annotation_ids d) \<Longrightarrow> distinct (annotation_ids d')" by simp
  assume dl: "distinct (license_ids d)"
  from e obtain k where k: "new_id = Some k \<or> new_id = None \<and> k \<notin> set (license_ids d)"
    and ids: "license_ids d' = (case r of Stored i \<Rightarrow> (license_ids d)[i := k] | Foreign v \<Rightarrow> license_ids d)"
    by blast
  show "distinct (license_ids d')"
  proof (cases r)
    case (Foreign v)
    with ids dl show ?thesis by simp
  next
    case (Stored i)
    show ?thesis
    proof (cases "i < length (licenses d)")
      case False
      with ids Stored dl show ?thesis by (simp add: license_ids_def list_update_beyond)
    next
      case True
      with k assms(2) Stored have "k \<notin> set (license_ids d) \<or> license_ids d ! i = k"
        by (auto simp: license_ids_def)
      with dl ids Stored show ?thesis by (simp add: distinct_update_held)
    qed
  qed
qed

lemma reindex_image_unique:
  assumes "unique_ids d" and "id_free (ReindexImage r new_id) d"
    and "reindex_image r new_id d = Inr d'"
  shows "unique_ids d'"
proof (rule unique_ids_frame [OF assms(1)])
  note e = reindex_image_effect [OF assms(3)]
  from e have "license_ids d' = license_ids d" by blast
  then show "distinct (license_ids d) \<Longrightarrow> distinct (license_ids d')" by simp
  from e have "categories d' = categories d" by blast
  then have "category_ids d' = category_ids d" by (rule category_ids_cong)
  then show "distinct (category_ids d) \<Longrightarrow> distinct (category_ids d')" by simp
  from e have "annotation_ids d' = annotation_ids d" by blast
  then show "distinct (annotation_ids d) \<Longrightarrow> distinct (annotation_ids d')" by simp
  assume dl: "distinct (image_ids d)"
  from e obtain k where k: "new_id = Some k \<or> new_id = None \<and> k \<notin> set (image_ids d)"
    and ids: "image_ids d' = (case r of Stored i \<Rightarrow> (image_ids d)[i := k] | Foreign v \<Rightarrow> image_ids d)"
    by blast
  show "distinct (image_ids d')"
  proof (cases r)
    case (Foreign v)
    with ids dl show ?thesis by simp
  next
    case (Stored i)
    show ?thesis
    proof (cases "i < length (images d)")
      case False
      with ids Stored dl show ?thesis by (simp add: image_ids_def list_update_beyond)
    next
      case True
      with k assms(2) Stored have "k \<notin> set (image_ids d) \<or> image_ids d ! i = k"
        by (auto simp: image_ids_def)
      with dl ids Stored show ?thesis by (simp add: distinct_update_held)
    qed
  qed
qed

lemma reindex_category_unique:
  assumes "unique_ids d" and "id_free (ReindexCategory r new_id) d"
    and "reindex_category r new_id d = Inr d'"
  shows "unique_ids d'"
proof (rule unique_ids_frame [OF assms(1)])
  note e = reindex_category_effect [OF assms(3)]
  from e have "license_ids d' = license_ids d" by blast
  then show "distinct (license_ids d) \<Longrightarrow> distinct (license_ids d')" by simp
  from e have "image_ids d' = image_ids d" by blast
  then show "distinct (image_ids d) \<Longrightarrow> distinct (image_ids d')" by simp
  from e have "annotation_ids d' = annotation_ids d" by blast
  then show "distinct (annotation_ids d) \<Longrightarrow> distinct (annotation_ids d')" by simp
  assume dl: "distinct (category_ids d)"
  from e obtain k where k: "new_id = Some k \<or> new_id = None \<and> k \<notin> set (category_ids d)"
    and ids: "category_ids d' = (case r of Stored i \<Rightarrow> (category_ids d)[i := k] | Foreign v \<Rightarrow> category_ids d)"
    by blast
  show "distinct (category_ids d')"
  proof (cases r)
    case (Foreign v)
    with ids dl show ?thesis by simp
  next
    case (Stored i)
    show ?thesis
    proof (cases "i < length (category_ids d)")
      case False
      with ids Stored dl show ?thesis by (simp add: list_update_beyond)
    next
      case True
      then have "has_categories d" "i < length (the_categories d)"
        by (auto simp: category_ids_def split: if_splits)
      with k assms(2) Stored have "k \<notin> set (category_ids d) \<or> category_ids d ! i = k"
        by (auto simp: category_ids_def)
      with dl ids Stored show ?thesis by (simp add: distinct_update_held)
    qed
  qed
qed

lemma reindex_annotation_unique:
  assumes "unique_ids d" and "id_free (ReindexAnnotation r new_id) d"
    and "reindex_annotation r new_id d = Inr d'"
  shows "unique_ids d'"
proof (rule unique_ids_frame [OF assms(1)])
  note e = reindex_annotation_effect [OF assms(3)]
  from e have "license_ids d' = license_ids d" by blast
  then show "distinct (license_ids d) \<Longrightarrow> distinct (license_ids d')" by simp
  from e have "image_ids d' = image_ids d" by blast
  then show "distinct (image_ids d) \<Longrightarrow> distinct (image_ids d')" by simp
  from e have "categories d' = categories d" by blast
  then have "category_ids d' = category_ids d" by (rule category_ids_cong)
  then show "distinct (category_ids d) \<Longrightarrow> distinct (category_ids d')" by simp
  assume dl: "distinct (annotation_ids d)"
  let ?ys = "map a_id (annotations d)"
  from e obtain k where k: "new_id = Some k \<or> new_id = None \<and> k \<notin> set (annotation_ids d)"
    and ids: "map a_id (annotations d') =
            (case r of
               Stored i \<Rightarrow>
                 if i < length (annotations d) \<and> a_id (annotations d ! i) \<noteq> None
                 then ?ys[i := Some k] else ?ys
             | Foreign v \<Rightarrow> ?ys)"
    by blast
  show "distinct (annotation_ids d')"
  proof (cases r)
    case (Foreign v)
    with ids dl show ?thesis by (simp add: annotation_ids_map_filter)
  next
    case (Stored i)
    show ?thesis
    proof (cases "i < length (annotations d) \<and> a_id (annotations d ! i) \<noteq> None")
      case False
      with ids Stored have "map a_id (annotations d') = ?ys" by (auto split: if_splits)
      with dl show ?thesis by (simp add: annotation_ids_map_filter)
    next
      case True
      have "k \<notin> set (annotation_ids d) \<or> a_id (annotations d ! i) = Some k"
      proof (cases new_id)
        case None
        with k show ?thesis by simp
      next
        case (Some k')
        with k have "new_id = Some k" by simp
        with assms(2) Stored True show ?thesis by simp
      qed
      with True have "Some k \<notin> set ?ys \<or> ?ys ! i = Some k"
        by (simp add: annotation_ids_map_filter in_somes)
      with dl have "distinct (List.map_filter (\<lambda>x. x) (?ys[i := Some k]))"
        unfolding annotation_ids_map_filter by (rule somes_update_fresh)
      with ids Stored True show ?thesis by (simp add: annotation_ids_map_filter)
    qed
  qed
qed

text \<open>
  C2: starting from unique ids, ids should stay unique under every sequence of append,
  remove and reindex operations, a singular reindex onto an id that another record holds
  displacing that record to a fresh id. The singular reindex does not displace (only the
  collection reindex makes room, and an append refuses a duplicate id): reindexing the
  first of two licenses, or of two images, to the id of the second leaves two records
  with that id.
\<close>

theorem reindex_to_held_id_duplicates:
  "unique_ids two_licenses_coco
   \<and> license_ids two_licenses_coco = [1, 2]
   \<and> reindex_license (Stored 0) (Some 2) two_licenses_coco
       = Inr (two_licenses_coco\<lparr>
            images := [mk_image 1 ''a.jpg'' 2, mk_image 2 ''b.jpg'' 2],
            licenses := [mk_license 2 ''CC-BY'', mk_license 2 ''MIT'']\<rparr>)
   \<and> map_sum id license_ids (reindex_license (Stored 0) (Some 2) two_licenses_coco) = Inr [2, 2]
   \<and> map_sum id unique_ids (reindex_license (Stored 0) (Some 2) two_licenses_coco) = Inr False
   \<and> map_sum id image_ids (reindex_image (Stored 0) (Some 2) two_licenses_coco) = Inr [2, 2]
   \<and> map_sum id unique_ids (reindex_image (Stored 0) (Some 2) two_licenses_coco) = Inr False"
  by (simp add: two_licenses_coco_def empty_coco_def unique_ids_def license_ids_def image_ids_def
      category_ids_def annotation_ids_def has_categories_def reindex_license_def reindex_image_def
      id_or_new_def update_selected_def mk_license_def mk_image_def)

text \<open>The collection reindex of the licenses assigns the ids it is given in its second
  loop, so ids given twice end up held twice.\<close>

lemma reindex_licenses_duplicate_ids:
  "map_sum id license_ids (reindex_licenses (Some [5, 5]) two_licenses_coco) = Inr [5, 5]"
  by (simp add: two_licenses_coco_def empty_coco_def license_ids_def reindex_licenses_def
      ids_or_range_def displace_license_def reindex_license_def
      id_or_new_def update_selected_def mk_license_def mk_image_def)

end
